theory Spec2Isabelle
  imports Main
begin

section \<open>The log collection agent (src/agent/agent.py)\<close>

text \<open>
  The agent tails a set of files, buffers one event per line, POSTs the buffer in
  batches and spools a batch to disk when the POST fails. This theory embeds the
  follower (\<open>follow\<close>, \<open>follower_thread\<close>), the spool (\<open>spool_batch\<close>,
  \<open>flush_spool_once\<close>), the transport (\<open>send_batch_http\<close>) and the flusher
  (\<open>attempt_flush_buffer\<close>, \<open>background_flusher\<close>) as functions over an explicit
  world, and states the properties of the specification over them.
\<close>

subsection \<open>The follower: \<open>follow\<close> and \<open>follower_thread\<close>\<close>

text \<open>
  What the follower sees of the file system at one pass of its loop: what is at the
  configured path, the bytes of every inode (an inode that was renamed away is still
  readable through the handle that holds it), whether the shutdown event is set, and
  whether \<open>os.fstat\<close> on a freshly opened handle raises.
  The path is \<open>Missing\<close> when its last component does not exist, and \<open>Blocked\<close>
  when it cannot be resolved at all (a parent directory that is a file, or one that
  may not be searched). \<open>open(path)\<close> raises FileNotFoundError on \<open>Missing\<close>,
  another OSError on \<open>Blocked\<close> and on \<open>Unreadable\<close>, and succeeds on
  \<open>Readable\<close>. \<open>os.stat(path)\<close> needs no read permission on the file: it raises
  FileNotFoundError on \<open>Missing\<close>, another OSError on \<open>Blocked\<close>, and reports the
  inode otherwise. \<open>os.path.exists(path)\<close> is \<open>os.stat\<close> with every OSError
  turned into False.
\<close>

type_synonym inode = nat

datatype path_entry = Missing | Blocked | Unreadable inode | Readable inode

record fsnap =
  at_path :: path_entry
  data :: "inode \<Rightarrow> string"
  stop :: bool
  fstat_fails :: bool

fun path_exists :: "path_entry \<Rightarrow> bool" where
  "path_exists Missing = False"
| "path_exists Blocked = False"
| "path_exists (Unreadable i) = True"
| "path_exists (Readable i) = True"

text \<open>The messages \<open>follow\<close> and \<open>follower_thread\<close> pass to \<open>log\<close>.\<close>

datatype flog =
    StartingFollower
  | NotFoundWaiting
  | FailedOpenAfterWait
  | DetectedRotation
  | FailedReopen
  | FollowerError
  | FollowerExiting

text \<open>
  How a follower thread ends: the loop saw the shutdown event, \<open>follow\<close> returned
  after the open that follows the wait failed, or an exception left the generator and
  \<open>follower_thread\<close> caught it.
\<close>

datatype fexit = ByShutdown | OpenFailed | Raised

text \<open>
  The control state of the generator: before the first \<open>open\<close>; in the wait loop of
  lines 203-206; in the read loop of lines 219-242 with the open handle (the inode it
  reads and the offset in the file at which the next read of the operating system
  starts) and \<open>current_inode\<close>; finished.
\<close>

datatype fstate =
    Init
  | WaitAppear
  | Tailing inode nat "inode option"
  | Exited fexit

subsubsection \<open>The text stream of \<open>open(path, "r")\<close>\<close>

text \<open>
  The handle is a buffered text stream. It reads the file in chunks, decodes each
  chunk as UTF-8 with errors raised, translates \<open>\r\n\<close> and \<open>\r\<close> to \<open>\n\<close>, and
  serves \<open>readline\<close> from the text it has decoded. Beside the file offset the
  stream therefore keeps the bytes its decoders hold back (an incomplete UTF-8
  sequence, a \<open>\r\<close> that may still be followed by \<open>\n\<close>) and the text that is
  decoded but not yet returned. Text is kept as the UTF-8 bytes of its characters.
\<close>

record stream =
  held :: string
  pending :: string

definition fresh :: stream where
  "fresh = \<lparr>held = [], pending = []\<rparr>"

definition newline :: char where
  "newline = CHR 0x0A"

definition cr :: char where
  "cr = CHR 0x0D"

definition chunk_size :: nat where
  "chunk_size = 8192"

text \<open>
  The bytes that may follow a first byte in well-formed UTF-8, as ranges, one for
  each byte that must follow; \<open>None\<close> for a byte that cannot start a sequence.
\<close>

definition tail_ranges :: "char \<Rightarrow> (nat \<times> nat) list option" where
  "tail_ranges b =
     (let n = (of_char b :: nat)
      in if n < 0x80 then Some []
         else if 0xC2 \<le> n \<and> n \<le> 0xDF then Some [(0x80, 0xBF)]
         else if n = 0xE0 then Some [(0xA0, 0xBF), (0x80, 0xBF)]
         else if n = 0xED then Some [(0x80, 0x9F), (0x80, 0xBF)]
         else if 0xE1 \<le> n \<and> n \<le> 0xEF then Some [(0x80, 0xBF), (0x80, 0xBF)]
         else if n = 0xF0 then Some [(0x90, 0xBF), (0x80, 0xBF), (0x80, 0xBF)]
         else if n = 0xF4 then Some [(0x80, 0x8F), (0x80, 0xBF), (0x80, 0xBF)]
         else if 0xF1 \<le> n \<and> n \<le> 0xF3 then Some [(0x80, 0xBF), (0x80, 0xBF), (0x80, 0xBF)]
         else None)"

datatype seq = Complete | Incomplete | Invalid

fun match_tail :: "(nat \<times> nat) list \<Rightarrow> string \<Rightarrow> seq" where
  "match_tail [] bs = Complete"
| "match_tail (r # rs) [] = Incomplete"
| "match_tail (r # rs) (b # bs) =
     (if fst r \<le> of_char b \<and> (of_char b :: nat) \<le> snd r then match_tail rs bs else Invalid)"

text \<open>
  The incremental UTF-8 decoder on the bytes it has: \<open>None\<close> when a sequence is
  ill-formed (UnicodeDecodeError), otherwise the bytes of the complete characters
  and the incomplete sequence at the end, which waits for more input.
\<close>

function utf8_decode :: "string \<Rightarrow> (string \<times> string) option" where
  "utf8_decode [] = Some ([], [])"
| "utf8_decode (b # bs) =
     (case tail_ranges b of
        None \<Rightarrow> None
      | Some rs \<Rightarrow>
          (case match_tail rs bs of
             Invalid \<Rightarrow> None
           | Incomplete \<Rightarrow> Some ([], b # bs)
           | Complete \<Rightarrow>
               (case utf8_decode (drop (length rs) bs) of
                  None \<Rightarrow> None
                | Some (t, rest) \<Rightarrow> Some (b # take (length rs) bs @ t, rest))))"
  by pat_completeness auto
termination
  by (relation "measure length") auto

text \<open>Universal newlines: \<open>\r\n\<close> and \<open>\r\<close> become \<open>\n\<close>.\<close>

fun translate :: "string \<Rightarrow> string" where
  "translate [] = []"
| "translate [c] = (if c = cr then [newline] else [c])"
| "translate (c # d # cs) =
     (if c = cr
      then (if d = newline then newline # translate cs else newline # translate (d # cs))
      else c # translate (d # cs))"

text \<open>
  One call of the stream's decoder on the bytes held back and a chunk: the text it
  gives and the bytes it holds back now, or \<open>None\<close> when it raises. At the end of
  the file the call is final: an incomplete sequence raises, and a \<open>\r\<close> that was
  held back is a line end.
\<close>

definition decode :: "string \<Rightarrow> string \<Rightarrow> bool \<Rightarrow> (string \<times> string) option" where
  "decode h chunk final =
     (case utf8_decode (h @ chunk) of
        None \<Rightarrow> None
      | Some (t, rest) \<Rightarrow>
          if final then (if rest = [] then Some (translate t, []) else None)
          else if t \<noteq> [] \<and> last t = cr then Some (translate (butlast t), cr # rest)
          else Some (translate t, rest))"

datatype read = Line string | DecodeError

text \<open>The first line of decoded text that holds a newline, and what follows it.\<close>

definition first_line :: "string \<Rightarrow> string" where
  "first_line t = takeWhile (\<lambda>c. c \<noteq> newline) t @ [newline]"

definition after_line :: "string \<Rightarrow> string" where
  "after_line t = tl (dropWhile (\<lambda>c. c \<noteq> newline) t)"

text \<open>
  \<open>fh.readline()\<close> on the stream at file offset \<open>pos\<close>: what it returns, the new
  offset and the new buffers. A line that is already decoded is returned without
  reading the file. Otherwise chunks are read and decoded until the text holds a
  newline; at the end of the file the rest of the text is returned, which is the
  empty string when nothing is left.
\<close>

function readline :: "string \<Rightarrow> nat \<Rightarrow> stream \<Rightarrow> read \<times> nat \<times> stream" where
  "readline bytes pos b =
     (if newline \<in> set (pending b)
      then (Line (first_line (pending b)), pos, b\<lparr>pending := after_line (pending b)\<rparr>)
      else if take chunk_size (drop pos bytes) = []
      then (case decode (held b) [] True of
              None \<Rightarrow> (DecodeError, pos, b)
            | Some (t, h) \<Rightarrow>
                if newline \<in> set (pending b @ t)
                then (Line (first_line (pending b @ t)), pos,
                      \<lparr>held = h, pending = after_line (pending b @ t)\<rparr>)
                else (Line (pending b @ t), pos, \<lparr>held = h, pending = []\<rparr>))
      else (case decode (held b) (take chunk_size (drop pos bytes)) False of
              None \<Rightarrow> (DecodeError, pos + length (take chunk_size (drop pos bytes)), b)
            | Some (t, h) \<Rightarrow>
                readline bytes (pos + length (take chunk_size (drop pos bytes)))
                  \<lparr>held = h, pending = pending b @ t\<rparr>))"
  by pat_completeness auto
termination
  by (relation "measure (\<lambda>(bytes, pos, b). length bytes - pos)") auto

declare readline.simps [simp del]

text \<open>\<open>line.rstrip("\n")\<close>: every trailing newline is removed.\<close>

definition rstrip_nl :: "string \<Rightarrow> string" where
  "rstrip_nl line = rev (dropWhile (\<lambda>c. c = newline) (rev line))"

subsubsection \<open>The generator\<close>

text \<open>
  Lines 213-217, after a successful \<open>open\<close> at startup: seek to the end of the file
  and record the inode, \<open>None\<close> when \<open>os.fstat\<close> raises.
\<close>

definition opened :: "fsnap \<Rightarrow> inode \<Rightarrow> fstate" where
  "opened s i = Tailing i (length (data s i)) (if fstat_fails s then None else Some i)"

text \<open>
  Lines 207-211: the single \<open>open\<close> after the wait loop has ended. Any exception is
  logged and the generator returns.
\<close>

definition open_after_wait :: "fsnap \<Rightarrow> (fstate \<times> stream) \<times> string option \<times> flog list" where
  "open_after_wait s =
     (case at_path s of
        Readable i \<Rightarrow> ((opened s i, fresh), None, [])
      | Unreadable i \<Rightarrow>
          ((Exited OpenFailed, fresh), None, [FailedOpenAfterWait, FollowerExiting])
      | Blocked \<Rightarrow> ((Exited OpenFailed, fresh), None, [FailedOpenAfterWait, FollowerExiting])
      | Missing \<Rightarrow> ((Exited OpenFailed, fresh), None, [FailedOpenAfterWait, FollowerExiting]))"

text \<open>
  Lines 225-242, the probe after an empty read with handle \<open>h\<close> at \<open>pos\<close>:
  \<open>os.stat(path)\<close> raising FileNotFoundError sleeps and continues; any other
  exception of \<open>os.stat\<close> is not caught, leaves the generator and ends the thread.
  An inode that differs from a recorded \<open>current_inode\<close> is a rotation, and the
  path is opened again. When that \<open>open\<close> raises the old handle is kept. When it
  succeeds the new handle replaces the old one, \<open>current_inode\<close> is set from
  \<open>os.fstat\<close> and line 235 seeks to the END of the new file; when \<open>os.fstat\<close>
  raises there, the handle is already replaced and stands at offset 0, and
  \<open>current_inode\<close> is unchanged.
\<close>

definition probe ::
  "fsnap \<Rightarrow> inode \<Rightarrow> nat \<Rightarrow> stream \<Rightarrow> inode option \<Rightarrow> (fstate \<times> stream) \<times> string option \<times> flog list"
where
  "probe s h pos b ci =
     (case at_path s of
        Missing \<Rightarrow> ((Tailing h pos ci, b), None, [])
      | Blocked \<Rightarrow> ((Exited Raised, b), None, [FollowerError, FollowerExiting])
      | Unreadable i \<Rightarrow>
          (if ci \<noteq> None \<and> Some i \<noteq> ci
           then ((Tailing h pos ci, b), None, [DetectedRotation, FailedReopen])
           else ((Tailing h pos ci, b), None, []))
      | Readable i \<Rightarrow>
          (if ci \<noteq> None \<and> Some i \<noteq> ci
           then (if fstat_fails s
                 then ((Tailing i 0 ci, fresh), None, [DetectedRotation, FailedReopen])
                 else ((Tailing i (length (data s i)) (Some i), fresh), None,
                       [DetectedRotation]))
           else ((Tailing h pos ci, b), None, [])))"

text \<open>
  One pass of the generator against one snapshot: the first \<open>open\<close> (lines 199-202),
  one pass of the wait loop (lines 203-211), or one pass of the read loop (lines
  219-242). The state is the control state with the buffers of the handle's stream;
  the result is the next state, the line yielded in this pass, and the messages
  logged. An exception that \<open>follow\<close> does not catch ends the generator, and
  \<open>follower_thread\<close> logs it and exits: an error other than FileNotFoundError at
  the first \<open>open\<close>, a decoding error in \<open>fh.readline()\<close>, which line 220 calls
  outside every \<open>try\<close>, and an error other than FileNotFoundError in \<open>os.stat\<close>.
\<close>

fun follow_step ::
  "fsnap \<Rightarrow> fstate \<times> stream \<Rightarrow> (fstate \<times> stream) \<times> string option \<times> flog list"
where
  "follow_step s (Init, b) =
     (case at_path s of
        Readable i \<Rightarrow> ((opened s i, fresh), None, [])
      | Missing \<Rightarrow> ((WaitAppear, fresh), None, [NotFoundWaiting])
      | Blocked \<Rightarrow> ((Exited Raised, fresh), None, [FollowerError, FollowerExiting])
      | Unreadable i \<Rightarrow> ((Exited Raised, fresh), None, [FollowerError, FollowerExiting]))"
| "follow_step s (WaitAppear, b) =
     (if stop s then open_after_wait s
      else if path_exists (at_path s) then open_after_wait s
      else ((WaitAppear, fresh), None, []))"
| "follow_step s (Tailing h pos ci, b) =
     (if stop s then ((Exited ByShutdown, b), None, [FollowerExiting])
      else (case readline (data s h) pos b of
              (DecodeError, pos', b') \<Rightarrow>
                ((Exited Raised, b'), None, [FollowerError, FollowerExiting])
            | (Line line, pos', b') \<Rightarrow>
                if line \<noteq> []
                then ((Tailing h pos' ci, b'), Some (rstrip_nl line), [])
                else probe s h pos' b' ci))"
| "follow_step s (Exited e, b) = ((Exited e, b), None, [])"

text \<open>
  The generator run against the snapshots of its successive passes: the final state,
  the lines yielded in order, and the log.
\<close>

fun follow ::
  "fsnap list \<Rightarrow> fstate \<times> stream \<Rightarrow> (fstate \<times> stream) \<times> string list \<times> flog list"
where
  "follow [] st = (st, [], [])"
| "follow (s # ss) st =
     (case follow_step s st of
        (st1, y, l1) \<Rightarrow>
          (case follow ss st1 of
             (st2, ys, l2) \<Rightarrow>
               (st2, (case y of None \<Rightarrow> ys | Some l \<Rightarrow> l # ys), l1 @ l2)))"

text \<open>
  \<open>follower_thread\<close>: every yielded line is handed to \<open>queue_line\<close> (the shutdown test
  of line 248 reads the same snapshot as the pass that yielded the line, where the
  event is not set). The result is the control state the generator ends in, the
  lines queued, and the log.
\<close>

definition follower_thread :: "fsnap list \<Rightarrow> fstate \<times> string list \<times> flog list" where
  "follower_thread snaps =
     (case follow snaps (Init, fresh) of (st, ys, l) \<Rightarrow> (fst st, ys, StartingFollower # l))"

text \<open>A snapshot with one readable file at the path.\<close>

definition snap :: "inode \<Rightarrow> (inode \<Rightarrow> string) \<Rightarrow> fsnap" where
  "snap i d = \<lparr>at_path = Readable i, data = d, stop = False, fstat_fails = False\<rparr>"

subsection \<open>Events, configuration and the world of the flusher\<close>

text \<open>
  Events are loosely shaped dictionaries in the source, and a batch is a list of them;
  both are JSON values here, a dictionary being the list of its items in insertion
  order.
\<close>

datatype json =
    JNull
  | JInt int
  | JStr string
  | JArr "json list"
  | JObj "(string \<times> json) list"

text \<open>
  The keys of \<open>_cfg\<close> that the embedded functions read. Times are in milliseconds
  (\<open>FLUSH_INTERVAL\<close> 2.0 is 2000). Three library functions are parameters: the two
  regular-expression searches of \<open>extract_meta\<close> (\<open>IP_RE.search\<close> with group 0,
  \<open>USER_RE.search\<close> with group 1) and the number of bytes \<open>json.dump\<close> writes
  for a value.
\<close>

record config =
  BACKEND_URL :: string
  API_TOKEN :: "string option"
  BATCH_SIZE :: int
  FLUSH_INTERVAL :: int
  MAX_SPOOL_BYTES :: int
  HOSTNAME :: "string option"
  ip_search :: "string \<Rightarrow> string option"
  user_search :: "string \<Rightarrow> string option"
  dump_size :: "json \<Rightarrow> nat"

text \<open>
  A regular file of the spool directory holds a JSON document, or something that
  \<open>json.load\<close> raises on. Serialisation is not modelled: \<open>json.load\<close> returns
  the value \<open>json.dump\<close> wrote. Whatever it holds, \<open>open\<close> may raise on the file
  (\<open>openable\<close> is False then).
\<close>

datatype file_content = Doc json | Corrupt

record spool_entry =
  fname :: string
  mtime :: nat
  is_file :: bool
  st_size :: nat
  content :: file_content
  openable :: bool

text \<open>
  What the \<open>try\<close> block of \<open>send_batch_http\<close> does: a response with a status
  code, a \<open>requests.RequestException\<close>, or an exception of another class
  (ValueError for a timeout that is not positive, UnicodeEncodeError for a header
  value that does not encode, or for a response text that \<open>log\<close> cannot print).
\<close>

datatype http_outcome = Status nat | RequestException | OtherException

text \<open>
  How \<open>send_batch_http\<close> ends: it returns True or False, or an exception that it
  does not catch leaves it.
\<close>

datatype send_result = Returned bool | Escaped

record request =
  rq_url :: string
  rq_headers :: "(string \<times> string) list"
  rq_body :: json

text \<open>The messages the spool, the transport and the flusher pass to \<open>log\<close>.\<close>

datatype log_msg =
    SpoolSkipped nat int
  | Spooled string
  | FailedToSpool
  | HttpStatus nat
  | HttpException
  | FlushedSpoolFile string
  | FailedFlushSpoolFile string
  | ErrorReadingSpoolFile string
  | SentBatch nat
  | FlusherError

text \<open>
  The state the flusher works on. \<open>buffer\<close> and \<open>last_flush\<close> are the module's
  globals; \<open>clock\<close> is what \<open>time.time()\<close> returns, in milliseconds; \<open>spool\<close>
  lists the entries of the spool directory in the order \<open>iterdir\<close> gives them, and
  \<open>spool_writable\<close> says whether the directory accepts creating and unlinking
  files; \<open>net\<close> lists what the endpoint will do with the coming requests and how
  long each takes, the endpoint being unreachable once the list is used up;
  \<open>posts\<close> records every call of \<open>requests.post\<close> with its outcome;
  \<open>rand_hex\<close> and \<open>rand_ctr\<close> are the source of \<open>uuid.uuid4()\<close>; \<open>logs\<close> is
  the self-log. The messages logged outside \<open>send_batch_http\<close> are built from the
  configuration, the names of spool files and numbers, which the log file and the
  standard output take: there \<open>log\<close> does not raise.
\<close>

record world =
  buffer :: "json list"
  last_flush :: nat
  clock :: nat
  spool :: "spool_entry list"
  spool_writable :: bool
  net :: "(http_outcome \<times> nat) list"
  posts :: "(request \<times> http_outcome) list"
  rand_hex :: "nat \<Rightarrow> string"
  rand_ctr :: nat
  logs :: "log_msg list"

definition log :: "log_msg \<Rightarrow> world \<Rightarrow> world" where
  "log m w = w\<lparr>logs := logs w @ [m]\<rparr>"

text \<open>\<open>uuid.uuid4().hex\<close>, and \<open>str\<close> of a UUID given its hex digits.\<close>

definition uuid4_hex :: "world \<Rightarrow> string \<times> world" where
  "uuid4_hex w = (rand_hex w (rand_ctr w), w\<lparr>rand_ctr := Suc (rand_ctr w)\<rparr>)"

definition uuid_str :: "string \<Rightarrow> string" where
  "uuid_str h =
     take 8 h @ ''-'' @ take 4 (drop 8 h) @ ''-'' @ take 4 (drop 12 h) @ ''-'' @
     take 4 (drop 16 h) @ ''-'' @ drop 20 h"

definition opt_str :: "string option \<Rightarrow> json" where
  "opt_str x = (case x of None \<Rightarrow> JNull | Some v \<Rightarrow> JStr v)"

definition extract_meta :: "config \<Rightarrow> string \<Rightarrow> json" where
  "extract_meta c line =
     JObj [(''ip'', opt_str (ip_search c line)), (''user'', opt_str (user_search c line))]"

definition make_event :: "config \<Rightarrow> string \<Rightarrow> string \<Rightarrow> world \<Rightarrow> json \<times> world" where
  "make_event c line source w =
     (case uuid4_hex w of
        (h, w1) \<Rightarrow>
          (JObj [(''client_uuid'', JStr (uuid_str h)),
                 (''ts'', JInt (int (clock w1 div 1000))),
                 (''source'', JStr source),
                 (''msg'', JStr line),
                 (''meta'', extract_meta c line),
                 (''collector'', JObj [(''host'', opt_str (HOSTNAME c))])],
           w1))"

definition queue_line :: "config \<Rightarrow> string \<Rightarrow> string \<Rightarrow> world \<Rightarrow> world" where
  "queue_line c line source w =
     (case make_event c line source w of
        (ev, w1) \<Rightarrow> w1\<lparr>buffer := buffer w1 @ [ev]\<rparr>)"

subsection \<open>The transport: \<open>send_batch_http\<close>\<close>

definition success_status :: "nat \<Rightarrow> bool" where
  "success_status code = (code = 200 \<or> code = 201 \<or> code = 202)"

definition payload :: "json \<Rightarrow> json" where
  "payload batch = JObj [(''events'', batch)]"

definition headers :: "config \<Rightarrow> (string \<times> string) list" where
  "headers c =
     (''Content-Type'', ''application/json'') #
     (case API_TOKEN c of
        None \<Rightarrow> []
      | Some t \<Rightarrow> if t = [] then [] else [(''Authorization'', ''Bearer '' @ t)])"

text \<open>The request that carries a batch (lines 135-138).\<close>

definition request_of :: "config \<Rightarrow> json \<Rightarrow> request" where
  "request_of c batch =
     \<lparr>rq_url = BACKEND_URL c, rq_headers = headers c, rq_body = payload batch\<rparr>"

text \<open>
  What the endpoint does with the next request, and how long that takes: the head of
  \<open>net\<close>, and a refused connection when \<open>net\<close> is used up.
\<close>

definition next_reply :: "world \<Rightarrow> http_outcome \<times> nat" where
  "next_reply w = (case net w of [] \<Rightarrow> (RequestException, 0) | x # xs \<Rightarrow> x)"

text \<open>
  Lines 139-149. The time the call took has passed when it ends, and the call is
  recorded with its outcome. Only \<open>requests.RequestException\<close> is caught: any other
  exception leaves the function.
\<close>

definition send_batch_http :: "config \<Rightarrow> json \<Rightarrow> world \<Rightarrow> send_result \<times> world" where
  "send_batch_http c batch w =
     (let r = next_reply w;
          w1 = w\<lparr>net := tl (net w), clock := clock w + snd r,
                 posts := posts w @ [(request_of c batch, fst r)]\<rparr>
      in case fst r of
           Status code \<Rightarrow>
             if success_status code then (Returned True, w1)
             else (Returned False, log (HttpStatus code) w1)
         | RequestException \<Rightarrow> (Returned False, log HttpException w1)
         | OtherException \<Rightarrow> (Escaped, w1))"

subsection \<open>The spool: \<open>spool_batch\<close> and \<open>flush_spool_once\<close>\<close>

text \<open>The character of a decimal digit; it is applied to numbers below 10 only.\<close>

definition digit :: "nat \<Rightarrow> char" where
  "digit n = ''0123456789'' ! n"

text \<open>The decimal digits of a number, as an f-string renders an integer.\<close>

function dec :: "nat \<Rightarrow> string" where
  "dec n = (if n < 10 then [digit n] else dec (n div 10) @ [digit (n mod 10)])"
  by pat_completeness auto
termination
  by (relation "measure id") auto

declare dec.simps [simp del]

definition batch_name :: "nat \<Rightarrow> string \<Rightarrow> string" where
  "batch_name secs tok = ''batch-'' @ dec secs @ ''-'' @ tok @ ''.json''"

text \<open>
  Line 120: the sizes of the regular files of the spool directory, summed. The spool
  directory exists (\<open>log_setup\<close> creates it) and belongs to the agent alone, so
  listing it and reading the size of a listed file do not raise, and the quota is a
  number: the handler of lines 124-125 is never entered.
\<close>

definition spool_total :: "world \<Rightarrow> nat" where
  "spool_total w = sum_list (map st_size (filter is_file (spool w)))"

text \<open>\<open>open(fname, "w")\<close> creates the file, or truncates the file of that name.\<close>

definition write_file :: "spool_entry \<Rightarrow> spool_entry list \<Rightarrow> spool_entry list" where
  "write_file e es = filter (\<lambda>x. fname x \<noteq> fname e) es @ [e]"

definition spool_batch :: "config \<Rightarrow> json \<Rightarrow> world \<Rightarrow> world" where
  "spool_batch c batch w =
     (let total_spool = spool_total w
      in if int total_spool > MAX_SPOOL_BYTES c
         then log (SpoolSkipped total_spool (MAX_SPOOL_BYTES c)) w
         else (case uuid4_hex w of
                 (tok, w1) \<Rightarrow>
                   (let name = batch_name (clock w1 div 1000) tok
                    in if spool_writable w1
                       then log (Spooled name)
                              (w1\<lparr>spool := write_file
                                     \<lparr>fname = name, mtime = clock w1, is_file = True,
                                      st_size = dump_size c batch, content = Doc batch,
                                      openable = True\<rparr>
                                     (spool w1)\<rparr>)
                       else log FailedToSpool w1)))"

definition unlink :: "spool_entry \<Rightarrow> world \<Rightarrow> world" where
  "unlink f w = w\<lparr>spool := filter (\<lambda>e. fname e \<noteq> fname f) (spool w)\<rparr>"

text \<open>
  Lines 164-169, the handler of any exception in the loop body: log, try to unlink,
  and pass when that raises too.
\<close>

definition remove_corrupt :: "spool_entry \<Rightarrow> world \<Rightarrow> world" where
  "remove_corrupt f w =
     (let w1 = log (ErrorReadingSpoolFile (fname f)) w
      in if spool_writable w1 then unlink f w1 else w1)"

text \<open>
  The loop of lines 153-170 over the listed files. The whole body is in one \<open>try\<close>
  whose handler takes every exception: a file that cannot be opened or does not load
  goes to the handler, and so does an exception that leaves \<open>send_batch_http\<close>. A
  file that loads is sent; when the send returns True the file is unlinked (an
  unlink that raises goes to the handler as well), when it returns False the
  function returns False at once.
\<close>

fun flush_files :: "config \<Rightarrow> spool_entry list \<Rightarrow> world \<Rightarrow> bool \<times> world" where
  "flush_files c [] w = (True, w)"
| "flush_files c (f # fs) w =
     (if \<not> openable f then flush_files c fs (remove_corrupt f w)
      else (case content f of
              Corrupt \<Rightarrow> flush_files c fs (remove_corrupt f w)
            | Doc batch \<Rightarrow>
                (case send_batch_http c batch w of
                   (Escaped, w1) \<Rightarrow> flush_files c fs (remove_corrupt f w1)
                 | (Returned success, w1) \<Rightarrow>
                     if success
                     then (if spool_writable w1
                           then flush_files c fs
                                  (log (FlushedSpoolFile (fname f)) (unlink f w1))
                           else flush_files c fs (remove_corrupt f w1))
                     else (False, log (FailedFlushSpoolFile (fname f)) w1))))"

text \<open>
  Line 152: every regular file of the directory, oldest modification time first;
  files of the same age keep the order of the listing, as Python's stable sort does.
\<close>

definition list_files :: "world \<Rightarrow> spool_entry list" where
  "list_files w = sort_key mtime (filter is_file (spool w))"

definition flush_spool_once :: "config \<Rightarrow> world \<Rightarrow> bool \<times> world" where
  "flush_spool_once c w = flush_files c (list_files w) w"

subsection \<open>The flusher: \<open>attempt_flush_buffer\<close> and \<open>background_flusher\<close>\<close>

text \<open>
  Lines 174-180, the block under \<open>_buffer_lock\<close>: nothing is taken from an empty
  buffer, nor from a buffer that is neither forced, full nor old; otherwise the whole
  buffer is copied out and cleared.
\<close>

definition take_batch :: "config \<Rightarrow> bool \<Rightarrow> world \<Rightarrow> json list option \<times> world" where
  "take_batch c force w =
     (if buffer w = [] then (None, w)
      else if \<not> force \<and> int (length (buffer w)) < BATCH_SIZE c
              \<and> int (clock w) - int (last_flush w) < FLUSH_INTERVAL c
      then (None, w)
      else (Some (buffer w), w\<lparr>buffer := []\<rparr>))"

text \<open>
  Lines 181-188, for a batch that was taken: drain the spool, send the batch, spool
  it when the send returned False, and set \<open>_last_flush\<close> from the clock. An
  exception that leaves \<open>send_batch_http\<close> leaves \<open>attempt_flush_buffer\<close> too:
  the batch is neither spooled nor put back, and \<open>_last_flush\<close> is not set. The
  function gives the world it leaves behind either way; \<open>attempt_raises\<close> tells
  whether it was left by an exception.
\<close>

definition attempt_flush_buffer :: "config \<Rightarrow> bool \<Rightarrow> world \<Rightarrow> world" where
  "attempt_flush_buffer c force w =
     (case take_batch c force w of
        (None, w0) \<Rightarrow> w0
      | (Some batch, w0) \<Rightarrow>
          (case send_batch_http c (JArr batch) (snd (flush_spool_once c w0)) of
             (Escaped, w2) \<Rightarrow> w2
           | (Returned ok, w2) \<Rightarrow>
               (let w3 = (if \<not> ok then spool_batch c (JArr batch) w2
                          else log (SentBatch (length batch)) w2)
                in w3\<lparr>last_flush := clock w3\<rparr>)))"

definition attempt_raises :: "config \<Rightarrow> bool \<Rightarrow> world \<Rightarrow> bool" where
  "attempt_raises c force w =
     (case take_batch c force w of
        (None, w0) \<Rightarrow> False
      | (Some batch, w0) \<Rightarrow>
          fst (send_batch_http c (JArr batch) (snd (flush_spool_once c w0))) = Escaped)"

text \<open>
  One pass of the loop of \<open>background_flusher\<close> (lines 258-265). An exception out
  of the flush attempt is logged by the handler of line 263, and the periodic drain
  of this pass is not reached. The environment decides how long \<open>time.sleep(0.5)\<close>
  really took and which lines the followers queued meanwhile.
\<close>

record tick =
  slept :: nat
  arrivals :: "(string \<times> string) list"

definition drain_due :: "world \<Rightarrow> bool" where
  "drain_due w = ((clock w div 1000) mod 30 = 0)"

definition flusher_pass :: "config \<Rightarrow> tick \<Rightarrow> world \<Rightarrow> world" where
  "flusher_pass c t w =
     (let w1 = attempt_flush_buffer c False w;
          w2 = (if attempt_raises c False w then log FlusherError w1
                else if drain_due w1 then snd (flush_spool_once c w1) else w1);
          w3 = w2\<lparr>clock := clock w2 + slept t\<rparr>
      in fold (\<lambda>(line, source). queue_line c line source) (arrivals t) w3)"

text \<open>
  The loop runs once for every tick; the shutdown event is set during the last sleep,
  and the final flush of lines 267-268 follows. It is outside the \<open>try\<close>: an
  exception out of the forced attempt ends the thread before the last drain.
\<close>

definition background_flusher :: "config \<Rightarrow> tick list \<Rightarrow> world \<Rightarrow> world" where
  "background_flusher c ticks w =
     (let w1 = fold (flusher_pass c) ticks w;
          w2 = attempt_flush_buffer c True w1
      in if attempt_raises c True w1 then w2 else snd (flush_spool_once c w2))"

subsection \<open>Observations used by the properties\<close>




text \<open>The inode \<open>os.stat(path)\<close> reports, when it reports one.\<close>

fun stat_ino :: "path_entry \<Rightarrow> inode option" where
  "stat_ino Missing = None"
| "stat_ino Blocked = None"
| "stat_ino (Unreadable i) = Some i"
| "stat_ino (Readable i) = Some i"

text \<open>Bytes that are all ASCII: they decode whatever the chunks are.\<close>

definition plain :: "string \<Rightarrow> bool" where
  "plain bs = list_all (\<lambda>c. (of_char c :: nat) < 128) bs"

text \<open>The requests made between an earlier world and a later one.\<close>

definition new_posts :: "world \<Rightarrow> world \<Rightarrow> (request \<times> http_outcome) list" where
  "new_posts w w' = drop (length (posts w)) (posts w')"

text \<open>Whether the last thing logged is that a batch was spooled.\<close>

definition wrote :: "world \<Rightarrow> bool" where
  "wrote w = (logs w \<noteq> [] \<and> (case last (logs w) of Spooled n \<Rightarrow> True | _ \<Rightarrow> False))"

text \<open>
  Sequences of operations on the spool: a write of a batch, a drain, the deletion of
  a file by name, and the environment changing what the endpoint will answer or
  whether the directory is writable. Beside the world, the run keeps the size of the
  last batch that was written.
\<close>

datatype spool_op =
    Write json
  | Drain
  | Delete string
  | Endpoint "(http_outcome \<times> nat) list"
  | Permission bool

fun run_op :: "config \<Rightarrow> spool_op \<Rightarrow> world \<times> nat \<Rightarrow> world \<times> nat" where
  "run_op c (Write batch) (w, l) =
     (let w' = spool_batch c batch w in (w', if wrote w' then dump_size c batch else l))"
| "run_op c Drain (w, l) = (snd (flush_spool_once c w), l)"
| "run_op c (Delete n) (w, l) = (w\<lparr>spool := filter (\<lambda>e. fname e \<noteq> n) (spool w)\<rparr>, l)"
| "run_op c (Endpoint rs) (w, l) = (w\<lparr>net := rs\<rparr>, l)"
| "run_op c (Permission b) (w, l) = (w\<lparr>spool_writable := b\<rparr>, l)"


definition run_ops :: "config \<Rightarrow> spool_op list \<Rightarrow> world \<times> nat \<Rightarrow> world \<times> nat" where
  "run_ops c ops st = fold (run_op c) ops st"

subsection \<open>Concrete inputs\<close>

definition cfg0 :: config where
  "cfg0 =
     \<lparr>BACKEND_URL = ''http://127.0.0.1:5050/ingest'', API_TOKEN = None, BATCH_SIZE = 25,
      FLUSH_INTERVAL = 2000, MAX_SPOOL_BYTES = 1024, HOSTNAME = Some ''host'',
      ip_search = (\<lambda>line. None), user_search = (\<lambda>line. None),
      dump_size = (\<lambda>j. 600)\<rparr>"

definition world0 :: world where
  "world0 =
     \<lparr>buffer = [], last_flush = 0, clock = 5000, spool = [], spool_writable = True,
      net = [], posts = [], rand_hex = (\<lambda>n. ''0123456789abcdef0123456789abcde'' @ [digit (n mod 10)]),
      rand_ctr = 0, logs = []\<rparr>"

definition ev0 :: json where
  "ev0 = JObj [(''source'', JStr ''/tmp/a.log''), (''msg'', JStr ''hello'')]"

text \<open>A file that is no batch: its name is not a batch name, its content is \<open>42\<close>.\<close>

definition stray :: spool_entry where
  "stray = \<lparr>fname = ''notes.txt'', mtime = 1, is_file = True, st_size = 2,
            content = Doc (JInt 42), openable = True\<rparr>"

definition garbage :: spool_entry where
  "garbage = \<lparr>fname = ''core'', mtime = 2, is_file = True, st_size = 9, content = Corrupt,
              openable = True\<rparr>"

definition subdir :: spool_entry where
  "subdir = \<lparr>fname = ''old'', mtime = 0, is_file = False, st_size = 4096, content = Corrupt,
             openable = False\<rparr>"

definition big :: spool_entry where
  "big = \<lparr>fname = ''batch-3-ff.json'', mtime = 3000, is_file = True, st_size = 2000,
          content = Doc (JArr [ev0, ev0, ev0]), openable = True\<rparr>"

definition backlog :: spool_entry where
  "backlog = \<lparr>fname = ''batch-7-00.json'', mtime = 7000, is_file = True, st_size = 600,
              content = Doc (JArr [ev0]), openable = True\<rparr>"

text \<open>A file that holds a batch and cannot be opened.\<close>

definition sealed :: spool_entry where
  "sealed = \<lparr>fname = ''batch-9-11.json'', mtime = 9000, is_file = True, st_size = 600,
             content = Doc (JArr [ev0]), openable = False\<rparr>"

text \<open>
  The file at the path before and after a rotation: inode 1 holds two lines, and
  inode 2, which replaces it at the path, already holds two lines when the follower
  probes.
\<close>

definition before_rotation :: "inode \<Rightarrow> string" where
  "before_rotation i = (if i = 1 then ''w1'' @ [newline] @ ''w2'' @ [newline] else [])"

definition after_rotation :: "inode \<Rightarrow> string" where
  "after_rotation i =
     (if i = 1 then ''w1'' @ [newline] @ ''w2'' @ [newline]
      else if i = 2 then ''w3'' @ [newline] @ ''w4'' @ [newline] else [])"

text \<open>The file of inode 1 before and after it is truncated in place and written to.\<close>

definition before_truncation :: "inode \<Rightarrow> string" where
  "before_truncation i = (if i = 1 then ''aaaa'' @ [newline] @ ''bbbb'' @ [newline] else [])"

definition after_truncation :: "inode \<Rightarrow> string" where
  "after_truncation i = (if i = 1 then ''cc'' @ [newline] else [])"





definition half_second :: tick where
  "half_second = \<lparr>slept = 500, arrivals = []\<rparr>"

definition stalled :: tick where
  "stalled = \<lparr>slept = 1300, arrivals = []\<rparr>"

text \<open>A quiet host at a given time: nothing buffered, one batch spooled, endpoint down.\<close>

definition quiet :: "nat \<Rightarrow> world" where
  "quiet t = world0\<lparr>clock := t, spool := [backlog]\<rparr>"

section \<open>Properties of the follower\<close>

lemmas follow_eval = follower_thread_def snap_def opened_def probe_def readline.simps decode_def
  tail_ranges_def first_line_def after_line_def rstrip_nl_def newline_def cr_def chunk_size_def
  fresh_def Let_def


lemma plain_append [simp]: "plain (xs @ ys) = (plain xs \<and> plain ys)"
  by (simp add: plain_def)

lemma plain_Nil [simp]: "plain []"
  by (simp add: plain_def)





lemma readline_at_end:
  "length bytes \<le> pos \<Longrightarrow> readline bytes pos b = readline [] pos b"
  by (subst (1 2) readline.simps) simp

lemma readline_end_pos: "fst (snd (readline [] pos b)) = pos"
  by (subst readline.simps) (simp split: option.splits)

lemma readline_end_fresh: "readline [] pos fresh = (Line [], pos, fresh)"
  by (subst readline.simps) (simp add: fresh_def decode_def)






lemma idle_step:
  assumes "\<not> stop s" "stat_ino (at_path s) = Some c" "length (data s h) \<le> pos"
  shows "follow_step s (Tailing h pos (Some c), b)
       = follow_step (s\<lparr>data := \<lambda>i. []\<rparr>) (Tailing h pos (Some c), b)"
    and "fst (fst (follow_step s (Tailing h pos (Some c), b))) = Tailing h pos (Some c)
       \<or> fst (fst (follow_step s (Tailing h pos (Some c), b))) = Exited Raised"
proof -
  obtain r p b' where rl: "readline [] pos b = (r, p, b')" by (cases "readline [] pos b") auto
  have p: "p = pos" using readline_end_pos [of pos b] rl by simp
  have same: "readline (data s h) pos b = (r, pos, b')"
    using readline_at_end [OF assms(3)] rl p by simp
  have pr: "probe s h pos b' (Some c) = ((Tailing h pos (Some c), b'), None, [])"
    "probe (s\<lparr>data := \<lambda>i. []\<rparr>) h pos b' (Some c) = ((Tailing h pos (Some c), b'), None, [])"
    using assms(2) by (cases "at_path s"; simp add: probe_def)+
  show "follow_step s (Tailing h pos (Some c), b)
       = follow_step (s\<lparr>data := \<lambda>i. []\<rparr>) (Tailing h pos (Some c), b)"
    using assms(1) same rl p pr by (cases r) simp_all
  show "fst (fst (follow_step s (Tailing h pos (Some c), b))) = Tailing h pos (Some c)
       \<or> fst (fst (follow_step s (Tailing h pos (Some c), b))) = Exited Raised"
    using assms(1) same pr by (cases r) simp_all
qed

lemma idle_fresh_step:
  assumes "\<not> stop s" "stat_ino (at_path s) = Some c" "length (data s h) \<le> pos"
  shows "follow_step s (Tailing h pos (Some c), fresh) = ((Tailing h pos (Some c), fresh), None, [])"
proof -
  have "readline (data s h) pos fresh = (Line [], pos, fresh)"
    using readline_at_end [OF assms(3)] readline_end_fresh by simp
  then show ?thesis
    using assms(1,2) by (cases "at_path s") (simp_all add: probe_def)
qed

subsection \<open>Rotation\<close>

text \<open>
  C1. On a rotation the follower is to reopen the path and read the new file from its
  beginning, so that the first bytes written to it are emitted. The source seeks to
  the end of the new file instead (line 235). Here the lines \<open>w1\<close> and \<open>w2\<close> are
  written to the file the follower tails, the file is rotated, and \<open>w3\<close> and \<open>w4\<close>
  are in the new file when the follower probes: it detects the rotation, reopens, and
  stands at position 6, the end of the new file. Only \<open>w1\<close> and \<open>w2\<close> are queued.
\<close>

theorem rotation_skips_first_lines:
  "follower_thread
     [snap 1 (\<lambda>i. []), snap 1 before_rotation, snap 1 before_rotation,
      snap 2 after_rotation, snap 2 after_rotation, snap 2 after_rotation]
   = (Tailing 2 6 (Some 2), [''w1'', ''w2''], [StartingFollower, DetectedRotation])"
  by (simp add: follow_eval before_rotation_def after_rotation_def)

subsection \<open>Errors that end a follower, and errors that do not\<close>




subsection \<open>Truncation\<close>

text \<open>
  C6, as stated: a file that becomes shorter than the read position with its inode
  unchanged makes the follower reset its position to 0, so that what is written after
  the truncation is emitted. The source never compares the size with the position.
  Here the follower stands at position 10 of inode 1; the file is truncated in place
  and the line \<open>cc\<close> is written: the position stays 10 and nothing is queued.
\<close>

theorem truncation_is_not_detected:
  "follower_thread [snap 1 before_truncation, snap 1 after_truncation, snap 1 after_truncation]
   = (Tailing 1 10 (Some 1), [], [StartingFollower])
   \<and> length (after_truncation 1) = 3"
  by (simp add: follow_eval before_truncation_def after_truncation_def)

text \<open>
  C6, amended. The follower has no truncation detection: it never compares the size
  of the file with its read offset and never resets the offset. While the path keeps
  the recorded inode and the file is no longer than the offset, as it is after a
  truncation in place, a pass reads nothing from the file: it does what it would do
  on an empty file. It leaves the handle and the offset as they are (or ends on a
  decoding error of the bytes held back), and what it emits, if anything, is text
  the stream had buffered before, a line read before the truncation. With nothing
  buffered every such pass emits nothing. What is written after the truncation is
  not emitted until the file has grown beyond the old offset.
\<close>

theorem truncation_keeps_position:
  "(\<not> stop s \<and> stat_ino (at_path s) = Some c \<and> length (data s h) \<le> pos \<longrightarrow>
      follow_step s (Tailing h pos (Some c), b)
        = follow_step (s\<lparr>data := \<lambda>i. []\<rparr>) (Tailing h pos (Some c), b)
      \<and> (fst (fst (follow_step s (Tailing h pos (Some c), b))) = Tailing h pos (Some c)
         \<or> fst (fst (follow_step s (Tailing h pos (Some c), b))) = Exited Raised))
   \<and> ((\<forall>s \<in> set snaps. \<not> stop s \<and> stat_ino (at_path s) = Some c \<and> length (data s h) \<le> pos)
        \<longrightarrow>
      follow snaps (Tailing h pos (Some c), fresh) = ((Tailing h pos (Some c), fresh), [], []))"
proof -
  have a: "follow_step s (Tailing h pos (Some c), b)
        = follow_step (s\<lparr>data := \<lambda>i. []\<rparr>) (Tailing h pos (Some c), b)
      \<and> (fst (fst (follow_step s (Tailing h pos (Some c), b))) = Tailing h pos (Some c)
         \<or> fst (fst (follow_step s (Tailing h pos (Some c), b))) = Exited Raised)"
    if "\<not> stop s" "stat_ino (at_path s) = Some c" "length (data s h) \<le> pos"
    using idle_step [OF that, of b] by blast
  have b: "follow snaps (Tailing h pos (Some c), fresh) = ((Tailing h pos (Some c), fresh), [], [])"
    if "\<forall>s \<in> set snaps. \<not> stop s \<and> stat_ino (at_path s) = Some c \<and> length (data s h) \<le> pos"
    using that by (induction snaps) (simp_all add: idle_fresh_step del: follow_step.simps)
  show ?thesis using a b by blast
qed

theorem truncation_keeps_position_witness:
  "follow_step (snap 1 after_truncation)
      (Tailing 1 10 (Some 1), \<lparr>held = [], pending = ''bbbb'' @ [newline]\<rparr>)
     = ((Tailing 1 10 (Some 1), fresh), Some ''bbbb'', [])
   \<and> follow [snap 1 after_truncation, snap 1 after_truncation] (Tailing 1 10 (Some 1), fresh)
     = ((Tailing 1 10 (Some 1), fresh), [], [])"
proof -
  have 1: "follow_step (snap 1 after_truncation\<lparr>data := \<lambda>i. []\<rparr>)
      (Tailing 1 10 (Some 1), \<lparr>held = [], pending = ''bbbb'' @ [newline]\<rparr>)
     = ((Tailing 1 10 (Some 1), fresh), Some ''bbbb'', [])"
    by (simp add: follow_eval)
  have 2: "follow_step (snap 1 after_truncation)
      (Tailing 1 10 (Some 1), \<lparr>held = [], pending = ''bbbb'' @ [newline]\<rparr>)
     = ((Tailing 1 10 (Some 1), fresh), Some ''bbbb'', [])"
    using truncation_keeps_position [where s = "snap 1 after_truncation" and c = 1 and h = 1
        and pos = 10 and b = "\<lparr>held = [], pending = ''bbbb'' @ [newline]\<rparr>"] 1
    by (simp add: snap_def after_truncation_def del: follow_step.simps)
  have 3: "follow [snap 1 after_truncation, snap 1 after_truncation] (Tailing 1 10 (Some 1), fresh)
     = ((Tailing 1 10 (Some 1), fresh), [], [])"
    using truncation_keeps_position
      [where snaps = "[snap 1 after_truncation, snap 1 after_truncation]" and c = 1 and h = 1
        and pos = 10]
    by (simp add: snap_def after_truncation_def del: follow.simps follow_step.simps)
  show ?thesis using 2 3 by simp
qed

section \<open>Properties of the spool and the transport\<close>

lemma log_fields [simp]:
  "buffer (log m w) = buffer w" "last_flush (log m w) = last_flush w"
  "clock (log m w) = clock w" "spool (log m w) = spool w"
  "spool_writable (log m w) = spool_writable w" "net (log m w) = net w"
  "posts (log m w) = posts w" "rand_hex (log m w) = rand_hex w"
  "rand_ctr (log m w) = rand_ctr w" "logs (log m w) = logs w @ [m]"
  by (simp_all add: log_def)

lemma unlink_fields [simp]:
  "buffer (unlink f w) = buffer w" "last_flush (unlink f w) = last_flush w"
  "clock (unlink f w) = clock w"
  "spool (unlink f w) = filter (\<lambda>e. fname e \<noteq> fname f) (spool w)"
  "spool_writable (unlink f w) = spool_writable w" "net (unlink f w) = net w"
  "posts (unlink f w) = posts w" "logs (unlink f w) = logs w"
  by (simp_all add: unlink_def)

lemma send_fields [simp]:
  "buffer (snd (send_batch_http c b w)) = buffer w"
  "last_flush (snd (send_batch_http c b w)) = last_flush w"
  "clock (snd (send_batch_http c b w)) = clock w + snd (next_reply w)"
  "spool (snd (send_batch_http c b w)) = spool w"
  "spool_writable (snd (send_batch_http c b w)) = spool_writable w"
  "net (snd (send_batch_http c b w)) = tl (net w)"
  "posts (snd (send_batch_http c b w)) = posts w @ [(request_of c b, fst (next_reply w))]"
  by (simp_all add: send_batch_http_def Let_def split: http_outcome.splits)

lemma send_ok:
  "(fst (send_batch_http c b w) = Returned True)
     = (\<exists>code. fst (next_reply w) = Status code \<and> success_status code)"
  by (simp add: send_batch_http_def Let_def split: http_outcome.splits)

lemma send_escaped:
  "(fst (send_batch_http c b w) = Escaped) = (fst (next_reply w) = OtherException)"
  by (simp add: send_batch_http_def Let_def split: http_outcome.splits)

lemma next_reply_net: "fst (next_reply w) = RequestException \<or> next_reply w \<in> set (net w)"
  by (cases "net w") (simp_all add: next_reply_def)

lemma remove_corrupt_fields [simp]:
  "buffer (remove_corrupt f w) = buffer w" "last_flush (remove_corrupt f w) = last_flush w"
  "clock (remove_corrupt f w) = clock w"
  "spool (remove_corrupt f w) =
     (if spool_writable w then filter (\<lambda>e. fname e \<noteq> fname f) (spool w) else spool w)"
  "spool_writable (remove_corrupt f w) = spool_writable w" "net (remove_corrupt f w) = net w"
  "posts (remove_corrupt f w) = posts w"
  by (simp_all add: remove_corrupt_def Let_def)

text \<open>The five ways one pass of the loop of \<open>flush_spool_once\<close> can go.\<close>

lemma flush_files_cases:
  obtains
    (unread) "\<not> openable f \<or> content f = Corrupt"
      "flush_files c (f # fs) w = flush_files c fs (remove_corrupt f w)"
  | (escaped) d where "openable f" "content f = Doc d"
      "fst (send_batch_http c d w) = Escaped"
      "flush_files c (f # fs) w = flush_files c fs (remove_corrupt f (snd (send_batch_http c d w)))"
  | (failed) d where "openable f" "content f = Doc d"
      "fst (send_batch_http c d w) = Returned False"
      "flush_files c (f # fs) w =
         (False, log (FailedFlushSpoolFile (fname f)) (snd (send_batch_http c d w)))"
  | (deleted) d where "openable f" "content f = Doc d"
      "fst (send_batch_http c d w) = Returned True" "spool_writable w"
      "flush_files c (f # fs) w =
         flush_files c fs (log (FlushedSpoolFile (fname f)) (unlink f (snd (send_batch_http c d w))))"
  | (kept) d where "openable f" "content f = Doc d"
      "fst (send_batch_http c d w) = Returned True" "\<not> spool_writable w"
      "flush_files c (f # fs) w = flush_files c fs (remove_corrupt f (snd (send_batch_http c d w)))"
proof (cases "openable f")
  case False
  then show ?thesis using unread by simp
next
  case op: True
  show ?thesis
  proof (cases "content f")
    case Corrupt
    then show ?thesis using unread op by simp
  next
    case (Doc d)
    obtain r w1 where s: "send_batch_http c d w = (r, w1)" by (cases "send_batch_http c d w")
    have sw: "spool_writable w1 = spool_writable w"
      using send_fields(5) [of c d w] s by simp
    show ?thesis
    proof (cases r)
      case Escaped
      then show ?thesis using escaped [of d] op Doc s by simp
    next
      case (Returned ok)
      show ?thesis
      proof (cases ok)
        case False
        then show ?thesis using failed [of d] op Doc s Returned by simp
      next
        case True
        then show ?thesis
          using deleted [of d] kept [of d] op Doc s sw Returned
          by (cases "spool_writable w") simp_all
      qed
    qed
  qed
qed

lemma flush_files_posts:
  "\<exists>ps. posts (snd (flush_files c fs w)) = posts w @ ps"
proof (induction fs arbitrary: w)
  case Nil
  then show ?case by simp
next
  case (Cons f fs)
  show ?case
  proof (cases rule: flush_files_cases [of f c fs w])
    case unread
    then show ?thesis using Cons.IH [of "remove_corrupt f w"] by simp
  next
    case (escaped d)
    then show ?thesis
      using Cons.IH [of "remove_corrupt f (snd (send_batch_http c d w))"] by auto
  next
    case (failed d)
    then show ?thesis by simp
  next
    case (deleted d)
    then show ?thesis
      using Cons.IH [of "log (FlushedSpoolFile (fname f)) (unlink f (snd (send_batch_http c d w)))"]
      by auto
  next
    case (kept d)
    then show ?thesis
      using Cons.IH [of "remove_corrupt f (snd (send_batch_http c d w))"] by auto
  qed
qed

lemma new_posts_mono:
  assumes "posts w1 = posts w @ ps" "\<exists>qs. posts w' = posts w1 @ qs"
  shows "set (new_posts w1 w') \<subseteq> set (new_posts w w')" "set ps \<subseteq> set (new_posts w w')"
  using assms by (auto simp: new_posts_def)

lemma new_posts_same: "posts w1 = posts w \<Longrightarrow> new_posts w1 w' = new_posts w w'"
  by (simp add: new_posts_def)

lemma new_posts_after_send:
  assumes "posts w2 = posts w @ [x]"
  shows "\<exists>qs. new_posts w (snd (flush_files c fs w2)) = x # qs
     \<and> new_posts w2 (snd (flush_files c fs w2)) = qs"
proof -
  obtain qs where "posts (snd (flush_files c fs w2)) = posts w2 @ qs"
    using flush_files_posts [of c fs w2] by auto
  then show ?thesis using assms by (simp add: new_posts_def)
qed

text \<open>A file that a drain removed has the name of a file the drain went through.\<close>

lemma flush_files_removed:
  "e \<in> set (spool w) \<Longrightarrow> e \<notin> set (spool (snd (flush_files c fs w))) \<Longrightarrow>
   \<exists>f \<in> set fs. fname f = fname e"
proof (induction fs arbitrary: w)
  case Nil
  then show ?case by simp
next
  case (Cons f fs)
  have step: "\<exists>g \<in> set (f # fs). fname g = fname e"
    if eq: "flush_files c (f # fs) w = flush_files c fs w1"
      and sp: "set (spool w1) \<supseteq> {x \<in> set (spool w). fname x \<noteq> fname f}" for w1
  proof (cases "fname e = fname f")
    case True
    then show ?thesis by auto
  next
    case False
    then have "e \<in> set (spool w1)" using sp Cons.prems(1) by auto
    then show ?thesis using Cons.IH [of w1] Cons.prems(2) eq by auto
  qed
  show ?case
  proof (cases rule: flush_files_cases [of f c fs w])
    case unread
    then show ?thesis using step [of "remove_corrupt f w"] by auto
  next
    case (escaped d)
    then show ?thesis using step [of "remove_corrupt f (snd (send_batch_http c d w))"] by auto
  next
    case (failed d)
    then show ?thesis using Cons.prems by simp
  next
    case (deleted d)
    then show ?thesis
      using step [of "log (FlushedSpoolFile (fname f)) (unlink f (snd (send_batch_http c d w)))"]
      by auto
  next
    case (kept d)
    then show ?thesis using step [of "remove_corrupt f (snd (send_batch_http c d w))"] by auto
  qed
qed

text \<open>
  When no send raises an exception of its own, a file that a drain removed could
  not be read, or was acknowledged.
\<close>

lemma flush_files_deleted:
  "\<forall>r \<in> set (net w). fst r \<noteq> OtherException \<Longrightarrow>
   e \<in> set (spool w) \<Longrightarrow> e \<notin> set (spool (snd (flush_files c fs w))) \<Longrightarrow>
   \<exists>f \<in> set fs. fname f = fname e \<and>
     (\<not> openable f \<or> content f = Corrupt \<or>
      (\<exists>d code. content f = Doc d \<and> success_status code \<and>
         (request_of c d, Status code) \<in> set (new_posts w (snd (flush_files c fs w)))))"
proof (induction fs arbitrary: w)
  case Nil
  then show ?case by simp
next
  case (Cons f fs)
  have tl: "\<forall>r \<in> set (tl (net w)). fst r \<noteq> OtherException"
    using Cons.prems(1) by (cases "net w") auto
  show ?case
  proof (cases rule: flush_files_cases [of f c fs w])
    case unread
    let ?w1 = "remove_corrupt f w"
    show ?thesis
    proof (cases "e \<in> set (spool ?w1)")
      case True
      have "new_posts ?w1 (snd (flush_files c fs ?w1)) = new_posts w (snd (flush_files c fs ?w1))"
        by (rule new_posts_same) simp
      then show ?thesis using Cons.IH [of ?w1] True Cons.prems(1,3) unread by auto
    next
      case False
      then have "fname e = fname f" using Cons.prems(2) by (auto split: if_splits)
      then show ?thesis using unread by auto
    qed
  next
    case (escaped d)
    then have "fst (next_reply w) = OtherException" by (simp add: send_escaped)
    then show ?thesis using next_reply_net [of w] Cons.prems(1) by auto
  next
    case (failed d)
    then show ?thesis using Cons.prems by simp
  next
    case (deleted d)
    let ?w2 = "log (FlushedSpoolFile (fname f)) (unlink f (snd (send_batch_http c d w)))"
    have p1: "posts ?w2 = posts w @ [(request_of c d, fst (next_reply w))]" by simp
    obtain code where code: "fst (next_reply w) = Status code" "success_status code"
      using deleted(3) by (auto simp: send_ok)
    have sub: "set (new_posts ?w2 (snd (flush_files c fs ?w2)))
        \<subseteq> set (new_posts w (snd (flush_files c fs ?w2)))"
      "(request_of c d, Status code) \<in> set (new_posts w (snd (flush_files c fs ?w2)))"
      using new_posts_mono [OF p1 flush_files_posts [of c fs ?w2]] code by auto
    have n2: "\<forall>r \<in> set (net ?w2). fst r \<noteq> OtherException" using tl by simp
    show ?thesis
    proof (cases "e \<in> set (spool ?w2)")
      case True
      show ?thesis using Cons.IH [OF n2 True] Cons.prems(3) deleted sub(1) by auto
    next
      case False
      then have "fname e = fname f" using Cons.prems(2) by auto
      then show ?thesis using deleted code sub(2) by auto
    qed
  next
    case (kept d)
    let ?w2 = "remove_corrupt f (snd (send_batch_http c d w))"
    have p1: "posts ?w2 = posts w @ [(request_of c d, fst (next_reply w))]" by simp
    have sub: "set (new_posts ?w2 (snd (flush_files c fs ?w2)))
        \<subseteq> set (new_posts w (snd (flush_files c fs ?w2)))"
      using new_posts_mono [OF p1 flush_files_posts [of c fs ?w2]] by auto
    have n2: "\<forall>r \<in> set (net ?w2). fst r \<noteq> OtherException" using tl by simp
    have "e \<in> set (spool ?w2)" using Cons.prems(2) kept(4) by simp
    then show ?thesis using Cons.IH [OF n2] Cons.prems(3) kept sub by auto
  qed
qed

lemma flush_files_origin:
  "(rq, out) \<in> set (new_posts w (snd (flush_files c fs w))) \<Longrightarrow>
   \<exists>f \<in> set fs. \<exists>d. content f = Doc d \<and> rq = request_of c d"
proof (induction fs arbitrary: w)
  case Nil
  then show ?case by (simp add: new_posts_def)
next
  case (Cons f fs)
  have sent: "\<exists>g \<in> set (f # fs). \<exists>d. content g = Doc d \<and> rq = request_of c d"
    if eq: "flush_files c (f # fs) w = flush_files c fs w2"
      and p: "posts w2 = posts w @ [(request_of c d, fst (next_reply w))]"
      and d: "content f = Doc d" for w2 d
  proof -
    obtain qs where qs: "new_posts w (snd (flush_files c fs w2)) = (request_of c d, fst (next_reply w)) # qs"
      "new_posts w2 (snd (flush_files c fs w2)) = qs"
      using new_posts_after_send [OF p, of c fs] by auto
    then show ?thesis using Cons.IH [of w2] Cons.prems eq d by auto
  qed
  show ?case
  proof (cases rule: flush_files_cases [of f c fs w])
    case unread
    let ?w1 = "remove_corrupt f w"
    have "new_posts ?w1 (snd (flush_files c fs ?w1)) = new_posts w (snd (flush_files c fs ?w1))"
      by (rule new_posts_same) simp
    then show ?thesis using Cons.IH [of ?w1] Cons.prems unread by auto
  next
    case (escaped d)
    then show ?thesis using sent [of "remove_corrupt f (snd (send_batch_http c d w))" d] by simp
  next
    case (failed d)
    then show ?thesis using Cons.prems by (auto simp: new_posts_def)
  next
    case (deleted d)
    then show ?thesis
      using sent [of "log (FlushedSpoolFile (fname f)) (unlink f (snd (send_batch_http c d w)))" d]
      by simp
  next
    case (kept d)
    then show ?thesis using sent [of "remove_corrupt f (snd (send_batch_http c d w))" d] by simp
  qed
qed

lemma set_list_files: "set (list_files w) = {e \<in> set (spool w). is_file e}"
  by (simp add: list_files_def)

lemma same_name_same_entry:
  "distinct (map fname es) \<Longrightarrow> e \<in> set es \<Longrightarrow> f \<in> set es \<Longrightarrow> fname f = fname e \<Longrightarrow> f = e"
  by (meson distinct_map inj_onD)

lemma flush_files_spool_subset:
  "set (spool (snd (flush_files c fs w))) \<subseteq> set (spool w)"
proof (induction fs arbitrary: w)
  case Nil
  then show ?case by simp
next
  case (Cons f fs)
  show ?case
  proof (cases rule: flush_files_cases [of f c fs w])
    case unread
    then show ?thesis using Cons.IH [of "remove_corrupt f w"] by (auto split: if_splits)
  next
    case (escaped d)
    then show ?thesis
      using Cons.IH [of "remove_corrupt f (snd (send_batch_http c d w))"] by (auto split: if_splits)
  next
    case (failed d)
    then show ?thesis by simp
  next
    case (deleted d)
    then show ?thesis
      using Cons.IH [of "log (FlushedSpoolFile (fname f)) (unlink f (snd (send_batch_http c d w)))"]
      by auto
  next
    case (kept d)
    then show ?thesis
      using Cons.IH [of "remove_corrupt f (snd (send_batch_http c d w))"] by (auto split: if_splits)
  qed
qed

lemma flush_files_writable [simp]:
  "spool_writable (snd (flush_files c fs w)) = spool_writable w"
proof (induction fs arbitrary: w)
  case Nil
  then show ?case by simp
next
  case (Cons f fs)
  show ?case
    by (cases rule: flush_files_cases [of f c fs w]) (simp_all add: Cons.IH)
qed

lemma flush_files_complete:
  "fst (flush_files c fs w) \<Longrightarrow> spool_writable w \<Longrightarrow> e \<in> set (spool (snd (flush_files c fs w))) \<Longrightarrow>
   f \<in> set fs \<Longrightarrow> fname e \<noteq> fname f"
proof (induction fs arbitrary: w)
  case Nil
  then show ?case by simp
next
  case (Cons g fs)
  have step: "fname e \<noteq> fname f"
    if eq: "flush_files c (g # fs) w = flush_files c fs w1"
      and sp: "spool w1 = filter (\<lambda>x. fname x \<noteq> fname g) (spool w)"
      and wr: "spool_writable w1" for w1
  proof (cases "f = g")
    case True
    have "e \<in> set (spool w1)"
      using flush_files_spool_subset [of c fs w1] Cons.prems(3) eq by auto
    then show ?thesis using sp True by auto
  next
    case False
    then show ?thesis using Cons.IH [of w1] Cons.prems eq wr by auto
  qed
  show ?case
  proof (cases rule: flush_files_cases [of g c fs w])
    case unread
    then show ?thesis using step [of "remove_corrupt g w"] Cons.prems(2) by simp
  next
    case (escaped d)
    then show ?thesis
      using step [of "remove_corrupt g (snd (send_batch_http c d w))"] Cons.prems(2) by simp
  next
    case (failed d)
    then show ?thesis using Cons.prems by simp
  next
    case (deleted d)
    then show ?thesis
      using step [of "log (FlushedSpoolFile (fname g)) (unlink g (snd (send_batch_http c d w)))"]
        Cons.prems(2)
      by simp
  next
    case (kept d)
    then show ?thesis using Cons.prems by simp
  qed
qed

lemmas eval_defs = flush_spool_once_def list_files_def world0_def stray_def garbage_def subdir_def
  backlog_def sealed_def send_batch_http_def next_reply_def success_status_def log_def unlink_def
  remove_corrupt_def Let_def new_posts_def

subsection \<open>Files that are no batch files\<close>

text \<open>
  C4, as stated: the drain leaves untouched every file whose name or content is not
  that of a serialized batch, neither sending nor deleting it. The source lists the
  directory with \<open>iterdir\<close> and tests \<open>is_file\<close> only. Here the directory holds
  one file, \<open>notes.txt\<close> with content \<open>42\<close>, and the endpoint answers 200: the
  drain POSTs \<open>{"events": 42}\<close> and deletes the file.
\<close>

theorem drain_sends_and_deletes_stray_file:
  "spool (snd (flush_spool_once cfg0 (world0\<lparr>spool := [stray], net := [(Status 200, 10)]\<rparr>))) = []
   \<and> posts (snd (flush_spool_once cfg0 (world0\<lparr>spool := [stray], net := [(Status 200, 10)]\<rparr>)))
       = [(request_of cfg0 (JInt 42), Status 200)]
   \<and> fname stray = ''notes.txt'' \<and> content stray = Doc (JInt 42)"
  by (simp add: flush_spool_once_def list_files_def world0_def stray_def send_batch_http_def
      next_reply_def success_status_def log_def unlink_def Let_def)

text \<open>
  C4, amended. The drain does not tell batch files from other files: it takes every
  regular file of the spool directory, whatever its name and whatever document it
  holds. Only entries that are not regular files are left untouched: they stay in the
  directory, and every request the drain makes carries the document of a regular
  file, wrapped as \<open>{"events": document}\<close>. A drain that no failed send stops
  leaves no regular file in a writable directory: each one was sent and deleted, or
  deleted as corrupt.
\<close>

theorem drain_takes_every_regular_file:
  "(distinct (map fname (spool w)) \<and> e \<in> set (spool w) \<and> \<not> is_file e \<longrightarrow>
      e \<in> set (spool (snd (flush_spool_once c w))))
   \<and> ((rq, out) \<in> set (new_posts w (snd (flush_spool_once c w))) \<longrightarrow>
      (\<exists>f \<in> set (spool w). is_file f \<and> (\<exists>d. content f = Doc d \<and> rq = request_of c d)))
   \<and> (fst (flush_spool_once c w) \<and> spool_writable w \<longrightarrow>
      filter is_file (spool (snd (flush_spool_once c w))) = [])"
proof -
  have a: "e \<in> set (spool (snd (flush_spool_once c w)))"
    if h: "distinct (map fname (spool w))" "e \<in> set (spool w)" "\<not> is_file e"
  proof (rule ccontr)
    assume "e \<notin> set (spool (snd (flush_spool_once c w)))"
    then obtain f where f: "f \<in> set (list_files w)" "fname f = fname e"
      using flush_files_removed [of e w c "list_files w"] h(2)
      by (auto simp: flush_spool_once_def)
    then have "f = e" using same_name_same_entry [OF h(1) h(2)] by (simp add: set_list_files)
    then show False using f(1) h(3) by (simp add: set_list_files)
  qed
  have b: "\<exists>f \<in> set (spool w). is_file f \<and> (\<exists>d. content f = Doc d \<and> rq = request_of c d)"
    if "(rq, out) \<in> set (new_posts w (snd (flush_spool_once c w)))"
    using flush_files_origin [of rq out w c "list_files w"] that
    by (auto simp: flush_spool_once_def set_list_files)
  have c: "filter is_file (spool (snd (flush_spool_once c w))) = []"
    if h: "fst (flush_spool_once c w)" "spool_writable w"
  proof -
    have "\<not> is_file x" if x: "x \<in> set (spool (snd (flush_spool_once c w)))" for x
    proof
      assume "is_file x"
      moreover have "x \<in> set (spool w)"
        using flush_files_spool_subset [of c "list_files w" w] x
        by (auto simp: flush_spool_once_def)
      ultimately have "x \<in> set (list_files w)" by (simp add: set_list_files)
      then show False
        using flush_files_complete [of c "list_files w" w x x] h x
        by (simp add: flush_spool_once_def)
    qed
    then show ?thesis by (simp add: filter_empty_conv)
  qed
  show ?thesis using a b c by blast
qed

theorem drain_takes_every_regular_file_witness:
  "subdir \<in> set (spool (snd (flush_spool_once cfg0 (world0\<lparr>spool := [subdir, stray, garbage], net := [(Status 200, 10)]\<rparr>))))
   \<and> (\<exists>f \<in> set [subdir, stray, garbage]. is_file f \<and> (\<exists>d. content f = Doc d \<and> request_of cfg0 (JInt 42) = request_of cfg0 d))
   \<and> filter is_file (spool (snd (flush_spool_once cfg0 (world0\<lparr>spool := [subdir, stray, garbage], net := [(Status 200, 10)]\<rparr>)))) = []"
proof -
  let ?w = "world0\<lparr>spool := [subdir, stray, garbage], net := [(Status 200, 10)]\<rparr>"
  have 1: "distinct (map fname (spool ?w)) \<and> subdir \<in> set (spool ?w) \<and> \<not> is_file subdir"
    by (simp add: eval_defs)
  have 2: "(request_of cfg0 (JInt 42), Status 200) \<in> set (new_posts ?w (snd (flush_spool_once cfg0 ?w)))"
    by (simp add: eval_defs)
  have 3: "fst (flush_spool_once cfg0 ?w) \<and> spool_writable ?w"
    by (simp add: eval_defs)
  show ?thesis
    using drain_takes_every_regular_file [where w = ?w and c = cfg0 and e = subdir
        and rq = "request_of cfg0 (JInt 42)" and out = "Status 200"] 1 2 3
    by simp
qed

subsection \<open>When a spool file is deleted\<close>

text \<open>
  C5, as stated: a spool file is deleted only if the POST that carried its contents
  returned a success status, or its content failed to deserialize. The handler of
  lines 164-169 takes the exception of \<open>open\<close> as well. Here the directory holds
  one file with a batch in it, and \<open>open\<close> raises on the file: the drain deletes
  it, having read nothing of it and sent nothing.
\<close>

theorem drain_deletes_unopened_file:
  "spool (snd (flush_spool_once cfg0 (world0\<lparr>spool := [sealed]\<rparr>))) = []
   \<and> posts (snd (flush_spool_once cfg0 (world0\<lparr>spool := [sealed]\<rparr>))) = []
   \<and> content sealed = Doc (JArr [ev0]) \<and> openable sealed = False"
  by (simp add: eval_defs)

text \<open>
  C5, amended. As long as no send raises an exception other than
  \<open>requests.RequestException\<close>: in a directory whose entries have distinct names,
  a file that the drain removed is a regular file that could not be read (\<open>open\<close>
  raised on it, or its content did not deserialize), or one whose document was
  POSTed by this drain with status 200, 201 or 202. A file that cannot be read is
  deleted at once as corrupt and the loop goes on with the next file. When the send
  of a file's document returns False (a \<open>requests.RequestException\<close> or another
  status), the drain returns False there: the directory is as it was, so the file is
  kept, and that one request is the only one made, so no later file is tried.
\<close>

theorem delete_needs_ack_or_read_error:
  "((\<forall>r \<in> set (net w). fst r \<noteq> OtherException) \<and> distinct (map fname (spool w))
      \<and> e \<in> set (spool w) \<and> e \<notin> set (spool (snd (flush_spool_once c w))) \<longrightarrow>
      is_file e \<and>
      (\<not> openable e \<or> content e = Corrupt \<or>
       (\<exists>d code. content e = Doc d \<and> success_status code \<and>
          (request_of c d, Status code) \<in> set (new_posts w (snd (flush_spool_once c w))))))
   \<and> ((\<not> openable f \<or> content f = Corrupt) \<and> spool_writable w \<longrightarrow>
      flush_files c (f # fs) w =
        flush_files c fs (unlink f (log (ErrorReadingSpoolFile (fname f)) w)))
   \<and> (openable f \<and> content f = Doc d \<and> fst (send_batch_http c d w) = Returned False \<longrightarrow>
      fst (flush_files c (f # fs) w) = False
      \<and> spool (snd (flush_files c (f # fs) w)) = spool w
      \<and> new_posts w (snd (flush_files c (f # fs) w)) = [(request_of c d, fst (next_reply w))])"
proof -
  have a: "is_file e \<and>
      (\<not> openable e \<or> content e = Corrupt \<or>
       (\<exists>d code. content e = Doc d \<and> success_status code \<and>
          (request_of c d, Status code) \<in> set (new_posts w (snd (flush_spool_once c w)))))"
    if h: "\<forall>r \<in> set (net w). fst r \<noteq> OtherException" "distinct (map fname (spool w))"
      "e \<in> set (spool w)" "e \<notin> set (spool (snd (flush_spool_once c w)))"
  proof -
    obtain g where g: "g \<in> set (list_files w)" "fname g = fname e"
      "\<not> openable g \<or> content g = Corrupt \<or>
       (\<exists>d code. content g = Doc d \<and> success_status code \<and>
          (request_of c d, Status code) \<in> set (new_posts w (snd (flush_files c (list_files w) w))))"
      using flush_files_deleted [of w e c "list_files w"] h(1,3,4)
      by (auto simp: flush_spool_once_def)
    have "g = e" using same_name_same_entry [OF h(2) h(3)] g(1,2) by (simp add: set_list_files)
    then show ?thesis using g by (simp add: set_list_files flush_spool_once_def)
  qed
  have b: "flush_files c (f # fs) w =
        flush_files c fs (unlink f (log (ErrorReadingSpoolFile (fname f)) w))"
    if "\<not> openable f \<or> content f = Corrupt" "spool_writable w"
    using that by (auto simp: remove_corrupt_def)
  have c: "fst (flush_files c (f # fs) w) = False
      \<and> spool (snd (flush_files c (f # fs) w)) = spool w
      \<and> new_posts w (snd (flush_files c (f # fs) w)) = [(request_of c d, fst (next_reply w))]"
    if h: "openable f" "content f = Doc d" "fst (send_batch_http c d w) = Returned False"
  proof (cases rule: flush_files_cases [of f c fs w])
    case (failed d')
    then show ?thesis using h by (simp add: new_posts_def)
  qed (use h in simp_all)
  show ?thesis using a b c by blast
qed

theorem delete_needs_ack_or_read_error_witness:
  "garbage \<notin> set (spool (snd (flush_spool_once cfg0 (world0\<lparr>spool := [backlog, garbage]\<rparr>))))
   \<and> is_file garbage \<and> content garbage = Corrupt
   \<and> flush_files cfg0 [garbage, backlog] (world0\<lparr>spool := [backlog, garbage]\<rparr>)
      = flush_files cfg0 [backlog] (unlink garbage (log (ErrorReadingSpoolFile (fname garbage)) (world0\<lparr>spool := [backlog, garbage]\<rparr>)))
   \<and> fst (flush_files cfg0 [backlog, stray] (world0\<lparr>spool := [backlog, stray]\<rparr>)) = False
   \<and> spool (snd (flush_files cfg0 [backlog, stray] (world0\<lparr>spool := [backlog, stray]\<rparr>))) = [backlog, stray]
   \<and> new_posts (world0\<lparr>spool := [backlog, stray]\<rparr>) (snd (flush_files cfg0 [backlog, stray] (world0\<lparr>spool := [backlog, stray]\<rparr>)))
        = [(request_of cfg0 (JArr [ev0]), RequestException)]
   \<and> backlog \<notin> set (spool (snd (flush_spool_once cfg0
          (world0\<lparr>spool := [backlog], net := [(Status 201, 10)]\<rparr>))))
   \<and> (request_of cfg0 (JArr [ev0]), Status 201)
        \<in> set (new_posts (world0\<lparr>spool := [backlog], net := [(Status 201, 10)]\<rparr>)
                 (snd (flush_spool_once cfg0
                    (world0\<lparr>spool := [backlog], net := [(Status 201, 10)]\<rparr>))))"
proof -
  let ?u = "world0\<lparr>spool := [backlog], net := [(Status 201, 10)]\<rparr>"
  have 5: "(\<forall>r \<in> set (net ?u). fst r \<noteq> OtherException) \<and> distinct (map fname (spool ?u))
      \<and> backlog \<in> set (spool ?u) \<and> backlog \<notin> set (spool (snd (flush_spool_once cfg0 ?u)))"
    by (simp add: eval_defs)
  have 6: "(request_of cfg0 (JArr [ev0]), Status 201)
        \<in> set (new_posts ?u (snd (flush_spool_once cfg0 ?u)))"
    by (simp add: eval_defs)
  let ?w = "world0\<lparr>spool := [backlog, garbage]\<rparr>"
  let ?v = "world0\<lparr>spool := [backlog, stray]\<rparr>"
  have 1: "(\<forall>r \<in> set (net ?w). fst r \<noteq> OtherException) \<and> distinct (map fname (spool ?w))
      \<and> garbage \<in> set (spool ?w) \<and> garbage \<notin> set (spool (snd (flush_spool_once cfg0 ?w)))"
    by (simp add: eval_defs)
  have 2: "content garbage = Corrupt \<and> spool_writable ?w"
    by (simp add: eval_defs)
  have 3: "openable backlog \<and> content backlog = Doc (JArr [ev0])
      \<and> fst (send_batch_http cfg0 (JArr [ev0]) ?v) = Returned False"
    by (simp add: eval_defs)
  have 4: "next_reply ?v = (RequestException, 0)" "spool ?v = [backlog, stray]"
    by (simp_all add: next_reply_def world0_def)
  show ?thesis
    using delete_needs_ack_or_read_error [where w = ?w and c = cfg0 and e = garbage
        and f = garbage and fs = "[backlog]"]
      delete_needs_ack_or_read_error [where w = ?v and c = cfg0 and f = backlog
        and fs = "[stray]" and d = "JArr [ev0]"]
      delete_needs_ack_or_read_error [where w = ?u and c = cfg0 and e = backlog] 1 2 3 4 5 6
    by (simp del: flush_files.simps)
qed

text \<open>
  What the amended statement leaves out: the handler of lines 164-169 also takes an
  exception that leaves \<open>send_batch_http\<close>, although its message speaks of an
  error reading the file and of a corrupt file. Here the directory holds one batch
  that loads, and the send raises an exception that is no
  \<open>requests.RequestException\<close>: the file is deleted unacknowledged, and the drain
  goes on and returns True.
\<close>

lemma drain_deletes_unsent_file_when_send_raises:
  "flush_spool_once cfg0 (world0\<lparr>spool := [backlog], net := [(OtherException, 0)]\<rparr>)
     = (True, world0\<lparr>spool := [], net := [],
               posts := [(request_of cfg0 (JArr [ev0]), OtherException)],
               logs := [ErrorReadingSpoolFile ''batch-7-00.json'']\<rparr>)"
  by (simp add: eval_defs)

subsection \<open>The quota\<close>

lemma spool_batch_written:
  assumes "int (spool_total w) \<le> MAX_SPOOL_BYTES c" "spool_writable w"
  shows "spool_batch c batch w =
     log (Spooled (batch_name (clock w div 1000) (rand_hex w (rand_ctr w))))
       (w\<lparr>rand_ctr := Suc (rand_ctr w),
          spool := write_file
            \<lparr>fname = batch_name (clock w div 1000) (rand_hex w (rand_ctr w)), mtime = clock w,
             is_file = True, st_size = dump_size c batch, content = Doc batch, openable = True\<rparr> (spool w)\<rparr>)"
  using assms by (simp add: spool_batch_def uuid4_hex_def Let_def)














lemmas spool_eval = spool_batch_def spool_total_def uuid4_hex_def batch_name_def write_file_def
  run_ops_def wrote_def log_def cfg0_def world0_def big_def ev0_def digit_def Let_def



subsection \<open>What a spool file holds\<close>

lemma flush_files_first_post:
  assumes "openable f" "content f = Doc d"
  shows "\<exists>qs. new_posts v (snd (flush_files c (f # fs) v))
           = (request_of c d, fst (next_reply v)) # qs"
proof -
  have sent: "\<exists>qs. new_posts v (snd (flush_files c fs w2))
           = (request_of c d, fst (next_reply v)) # qs"
    if "posts w2 = posts v @ [(request_of c d, fst (next_reply v))]" for w2
    using new_posts_after_send [OF that, of c fs] by auto
  show ?thesis
  proof (cases rule: flush_files_cases [of f c fs v])
    case unread
    then show ?thesis using assms by simp
  next
    case (escaped d')
    then show ?thesis
      using sent [of "remove_corrupt f (snd (send_batch_http c d v))"] assms by simp
  next
    case (failed d')
    then show ?thesis using assms by (simp add: new_posts_def)
  next
    case (deleted d')
    then show ?thesis
      using sent [of "log (FlushedSpoolFile (fname f)) (unlink f (snd (send_batch_http c d v)))"]
        assms
      by simp
  next
    case (kept d')
    then show ?thesis
      using sent [of "remove_corrupt f (snd (send_batch_http c d v))"] assms by simp
  qed
qed

lemma attempt_flush_buffer_taken:
  "take_batch c force w = (Some b, w0) \<Longrightarrow>
   attempt_flush_buffer c force w =
     (let w1 = snd (flush_spool_once c w0);
          w2 = snd (send_batch_http c (JArr b) w1);
          w3 = (if fst (send_batch_http c (JArr b) w1) = Returned True
                then log (SentBatch (length b)) w2
                else spool_batch c (JArr b) w2)
      in if fst (send_batch_http c (JArr b) w1) = Escaped then w2
         else w3\<lparr>last_flush := clock w3\<rparr>)"
proof -
  assume t: "take_batch c force w = (Some b, w0)"
  obtain r w2 where s: "send_batch_http c (JArr b) (snd (flush_spool_once c w0)) = (r, w2)"
    by (cases "send_batch_http c (JArr b) (snd (flush_spool_once c w0))")
  show ?thesis
  proof (cases r)
    case Escaped
    then show ?thesis by (simp add: attempt_flush_buffer_def t s Let_def)
  next
    case (Returned ok)
    then show ?thesis
      by (cases ok) (simp_all add: attempt_flush_buffer_def t s Let_def log_def)
  qed
qed

lemma attempt_raises_taken:
  "take_batch c force w = (Some b, w0) \<Longrightarrow>
   attempt_raises c force w
     = (fst (send_batch_http c (JArr b) (snd (flush_spool_once c w0))) = Escaped)"
  by (simp add: attempt_raises_def)

lemmas flush_eval = attempt_flush_buffer_def attempt_raises_def take_batch_def spool_eval
  eval_defs dec.simps
  request_of_def payload_def headers_def

text \<open>
  C3, as stated: a spool file holds a document of the shape of the POST body, the
  object \<open>{"events": [Event, ...]}\<close>. The source dumps the batch itself, the bare
  array of events. Here one event is buffered and the endpoint is down: the forced
  flush POSTs \<open>{"events": [ev0]}\<close>, fails, and writes a file that holds \<open>[ev0]\<close>.
\<close>

theorem spool_file_is_bare_array:
  "map content (spool (attempt_flush_buffer cfg0 True (world0\<lparr>buffer := [ev0]\<rparr>)))
     = [Doc (JArr [ev0])]
   \<and> map fname (spool (attempt_flush_buffer cfg0 True (world0\<lparr>buffer := [ev0]\<rparr>)))
     = [''batch-5-0123456789abcdef0123456789abcde0.json'']
   \<and> map (\<lambda>p. (rq_body (fst p), snd p)) (posts (attempt_flush_buffer cfg0 True (world0\<lparr>buffer := [ev0]\<rparr>)))
     = [(JObj [(''events'', JArr [ev0])], RequestException)]"
  by (simp add: flush_eval)

text \<open>
  C3, amended. A spool file written on a failed live send holds one JSON document,
  the bare array of the events of the batch, and is named
  \<open>batch-<unix-secs>-<hex-token>.json\<close>. The drain wraps the document it reads as
  \<open>{"events": document}\<close>, so the request that replays the file has the URL, the
  headers and the body of the original live send. On a failed live send, one that
  returned False, the batch that is spooled is the batch that was sent.
\<close>

theorem spool_file_replays_live_request:
  "(int (spool_total w) \<le> MAX_SPOOL_BYTES c \<and> spool_writable w \<longrightarrow>
      (let e = last (spool (spool_batch c batch w))
       in spool (spool_batch c batch w) = write_file e (spool w)
          \<and> is_file e \<and> content e = Doc batch
          \<and> fname e = ''batch-'' @ dec (clock w div 1000) @ ''-'' @ rand_hex w (rand_ctr w) @ ''.json''
          \<and> (\<forall>fs v. hd (new_posts v (snd (flush_files c (e # fs) v)))
                      = (request_of c batch, fst (next_reply v)))))
   \<and> new_posts v (snd (send_batch_http c batch v)) = [(request_of c batch, fst (next_reply v))]
   \<and> rq_body (request_of c batch) = JObj [(''events'', batch)]
   \<and> (take_batch c force w = (Some b, w0)
        \<and> fst (send_batch_http c (JArr b) (snd (flush_spool_once c w0))) = Returned False
        \<longrightarrow>
      spool (attempt_flush_buffer c force w) =
        spool (spool_batch c (JArr b)
                 (snd (send_batch_http c (JArr b) (snd (flush_spool_once c w0))))))"
proof -
  let ?e = "\<lparr>fname = batch_name (clock w div 1000) (rand_hex w (rand_ctr w)), mtime = clock w,
             is_file = True, st_size = dump_size c batch, content = Doc batch, openable = True\<rparr>"
  have a: "let e = last (spool (spool_batch c batch w))
       in spool (spool_batch c batch w) = write_file e (spool w)
          \<and> is_file e \<and> content e = Doc batch
          \<and> fname e = ''batch-'' @ dec (clock w div 1000) @ ''-'' @ rand_hex w (rand_ctr w) @ ''.json''
          \<and> (\<forall>fs v. hd (new_posts v (snd (flush_files c (e # fs) v)))
                      = (request_of c batch, fst (next_reply v)))"
    if h: "int (spool_total w) \<le> MAX_SPOOL_BYTES c" "spool_writable w"
  proof -
    have sp: "spool (spool_batch c batch w) = write_file ?e (spool w)"
      by (simp add: spool_batch_written [OF h])
    then have l: "last (spool (spool_batch c batch w)) = ?e"
      by (simp add: write_file_def)
    have "hd (new_posts v (snd (flush_files c (?e # fs) v)))
        = (request_of c batch, fst (next_reply v))" for fs v
      using flush_files_first_post [of ?e batch v c fs] by auto
    then show ?thesis unfolding l Let_def using sp by (simp add: batch_name_def)
  qed
  have b: "new_posts v (snd (send_batch_http c batch v)) = [(request_of c batch, fst (next_reply v))]"
    by (simp add: new_posts_def)
  have c: "rq_body (request_of c batch) = JObj [(''events'', batch)]"
    by (simp add: request_of_def payload_def)
  have d: "spool (attempt_flush_buffer c force w) =
        spool (spool_batch c (JArr b)
                 (snd (send_batch_http c (JArr b) (snd (flush_spool_once c w0)))))"
    if "take_batch c force w = (Some b, w0)"
      "fst (send_batch_http c (JArr b) (snd (flush_spool_once c w0))) = Returned False"
    using that by (simp add: attempt_flush_buffer_taken Let_def)
  show ?thesis using a b c d by blast
qed

theorem spool_file_replays_live_request_witness:
  "int (spool_total world0) \<le> MAX_SPOOL_BYTES cfg0 \<and> spool_writable world0
   \<and> content (last (spool (spool_batch cfg0 (JArr [ev0]) world0))) = Doc (JArr [ev0])
   \<and> fname (last (spool (spool_batch cfg0 (JArr [ev0]) world0)))
       = ''batch-5-0123456789abcdef0123456789abcde0.json''
   \<and> hd (new_posts world0 (snd (flush_files cfg0
            [last (spool (spool_batch cfg0 (JArr [ev0]) world0))] world0)))
       = (request_of cfg0 (JArr [ev0]), RequestException)
   \<and> new_posts world0 (snd (send_batch_http cfg0 (JArr [ev0]) world0))
       = [(request_of cfg0 (JArr [ev0]), RequestException)]
   \<and> take_batch cfg0 True (world0\<lparr>buffer := [ev0]\<rparr>) = (Some [ev0], world0)
   \<and> spool (attempt_flush_buffer cfg0 True (world0\<lparr>buffer := [ev0]\<rparr>))
       = spool (spool_batch cfg0 (JArr [ev0])
                  (snd (send_batch_http cfg0 (JArr [ev0]) (snd (flush_spool_once cfg0 world0)))))"
proof -
  have 1: "int (spool_total world0) \<le> MAX_SPOOL_BYTES cfg0 \<and> spool_writable world0"
    by (simp add: spool_eval)
  have 2: "take_batch cfg0 True (world0\<lparr>buffer := [ev0]\<rparr>) = (Some [ev0], world0)"
    by (simp add: take_batch_def world0_def)
  have 3: "fst (send_batch_http cfg0 (JArr [ev0]) (snd (flush_spool_once cfg0 world0)))
      = Returned False"
    by (simp add: eval_defs)
  have 4: "next_reply world0 = (RequestException, 0)" "clock world0 div 1000 = 5"
    "rand_hex world0 (rand_ctr world0) = ''0123456789abcdef0123456789abcde0''"
    "dec 5 = ''5''"
    by (simp_all add: next_reply_def world0_def digit_def dec.simps)
  show ?thesis
    using spool_file_replays_live_request [where w = world0 and c = cfg0 and v = world0
        and batch = "JArr [ev0]"]
      spool_file_replays_live_request [where w = "world0\<lparr>buffer := [ev0]\<rparr>" and c = cfg0
        and force = True and b = "[ev0]" and ?w0.0 = world0] 1 2 3 4
    by (simp add: Let_def del: flush_files.simps)
qed

section \<open>Properties of the flusher\<close>

lemma flush_files_buffer [simp]: "buffer (snd (flush_files c fs w)) = buffer w"
proof (induction fs arbitrary: w)
  case Nil
  then show ?case by simp
next
  case (Cons f fs)
  show ?case
    by (cases rule: flush_files_cases [of f c fs w]) (simp_all add: Cons.IH)
qed

lemma flush_files_clock: "clock w \<le> clock (snd (flush_files c fs w))"
proof (induction fs arbitrary: w)
  case Nil
  then show ?case by simp
next
  case (Cons f fs)
  show ?case
  proof (cases rule: flush_files_cases [of f c fs w])
    case unread
    then show ?thesis using Cons.IH [of "remove_corrupt f w"] by simp
  next
    case (escaped d)
    then show ?thesis
      using Cons.IH [of "remove_corrupt f (snd (send_batch_http c d w))"] by simp
  next
    case (failed d)
    then show ?thesis by simp
  next
    case (deleted d)
    then show ?thesis
      using Cons.IH [of "log (FlushedSpoolFile (fname f)) (unlink f (snd (send_batch_http c d w)))"]
      by simp
  next
    case (kept d)
    then show ?thesis
      using Cons.IH [of "remove_corrupt f (snd (send_batch_http c d w))"] by simp
  qed
qed

lemma spool_batch_fields [simp]:
  "buffer (spool_batch c b w) = buffer w" "clock (spool_batch c b w) = clock w"
  "posts (spool_batch c b w) = posts w" "last_flush (spool_batch c b w) = last_flush w"
  by (simp_all add: spool_batch_def uuid4_hex_def Let_def)

lemma flush_files_last_flush [simp]: "last_flush (snd (flush_files c fs w)) = last_flush w"
proof (induction fs arbitrary: w)
  case Nil
  then show ?case by simp
next
  case (Cons f fs)
  show ?case
    by (cases rule: flush_files_cases [of f c fs w]) (simp_all add: Cons.IH)
qed

lemma take_batch_Some:
  "take_batch c force w = (Some b, w0) \<Longrightarrow> b = buffer w \<and> b \<noteq> [] \<and> w0 = w\<lparr>buffer := []\<rparr>"
  by (auto simp: take_batch_def split: if_splits)

lemma take_batch_None: "take_batch c force w = (None, w0) \<Longrightarrow> w0 = w"
  by (auto simp: take_batch_def split: if_splits)

subsection \<open>The conditional drain\<close>

text \<open>
  C7, as stated: the conditional drain returns a batch if and only if the buffer
  holds at least \<open>BATCH_SIZE\<close> events or the last flush is at least
  \<open>FLUSH_INTERVAL\<close> old. The source returns first when the buffer is empty. Here
  the last flush is 5 seconds old, the interval is 2 seconds, the buffer is empty,
  and nothing is taken.
\<close>

theorem old_empty_buffer_is_not_drained:
  "take_batch cfg0 False world0 = (None, world0)
   \<and> FLUSH_INTERVAL cfg0 \<le> int (clock world0) - int (last_flush world0)"
  by (simp add: take_batch_def cfg0_def world0_def)

text \<open>
  C7, amended. The conditional drain takes a batch if and only if the buffer is not
  empty and it holds at least \<open>BATCH_SIZE\<close> events or the last flush is at least
  \<open>FLUSH_INTERVAL\<close> old. \<open>queue_line\<close> appends at the end of the buffer, and a
  batch that is taken is the whole buffer in that order; the buffer is empty
  afterwards. The block under the lock leaves \<open>last_flush\<close> as it is:
  \<open>last_flush\<close> is set at the end of the flush attempt, after the spool drain, the
  send and the spool write, to the clock as it reads then; an attempt that an
  exception of the send cuts short does not reach that line and leaves
  \<open>last_flush\<close> as it was. When nothing is taken, the buffer, \<open>last_flush\<close> and
  everything else are unchanged.
\<close>

theorem conditional_drain:
  "take_batch c False w =
     (if buffer w \<noteq> [] \<and> (BATCH_SIZE c \<le> int (length (buffer w))
                          \<or> FLUSH_INTERVAL c \<le> int (clock w) - int (last_flush w))
      then (Some (buffer w), w\<lparr>buffer := []\<rparr>) else (None, w))
   \<and> buffer (queue_line c line source w) = buffer w @ [fst (make_event c line source w)]
   \<and> (take_batch c force w = (Some b, w0) \<longrightarrow>
        b = buffer w \<and> buffer w0 = [] \<and> last_flush w0 = last_flush w
        \<and> buffer (attempt_flush_buffer c force w) = []
        \<and> last_flush (attempt_flush_buffer c force w)
             = (if attempt_raises c force w then last_flush w
                else clock (attempt_flush_buffer c force w))
        \<and> clock w
             \<le> clock (snd (send_batch_http c (JArr b) (snd (flush_spool_once c w0))))
        \<and> clock (attempt_flush_buffer c force w)
             = clock (snd (send_batch_http c (JArr b) (snd (flush_spool_once c w0)))))
   \<and> (take_batch c force w = (None, w0) \<longrightarrow> w0 = w \<and> attempt_flush_buffer c force w = w)"
proof -
  have a: "take_batch c False w =
     (if buffer w \<noteq> [] \<and> (BATCH_SIZE c \<le> int (length (buffer w))
                          \<or> FLUSH_INTERVAL c \<le> int (clock w) - int (last_flush w))
      then (Some (buffer w), w\<lparr>buffer := []\<rparr>) else (None, w))"
    by (auto simp: take_batch_def)
  have b: "buffer (queue_line c line source w) = buffer w @ [fst (make_event c line source w)]"
    by (simp add: queue_line_def make_event_def uuid4_hex_def)
  have c: "b = buffer w \<and> buffer w0 = [] \<and> last_flush w0 = last_flush w
        \<and> buffer (attempt_flush_buffer c force w) = []
        \<and> last_flush (attempt_flush_buffer c force w)
             = (if attempt_raises c force w then last_flush w
                else clock (attempt_flush_buffer c force w))
        \<and> clock w
             \<le> clock (snd (send_batch_http c (JArr b) (snd (flush_spool_once c w0))))
        \<and> clock (attempt_flush_buffer c force w)
             = clock (snd (send_batch_http c (JArr b) (snd (flush_spool_once c w0))))"
    if t: "take_batch c force w = (Some b, w0)"
  proof -
    have w0: "b = buffer w" "w0 = w\<lparr>buffer := []\<rparr>" using take_batch_Some [OF t] by simp_all
    have "clock w0 \<le> clock (snd (flush_spool_once c w0))"
      unfolding flush_spool_once_def by (rule flush_files_clock)
    then have "clock w \<le> clock (snd (send_batch_http c (JArr b) (snd (flush_spool_once c w0))))"
      using w0 by simp
    then show ?thesis
      using w0
      by (simp add: attempt_flush_buffer_taken [OF t] attempt_raises_taken [OF t] Let_def
          flush_spool_once_def)
  qed
  have d: "w0 = w \<and> attempt_flush_buffer c force w = w" if t: "take_batch c force w = (None, w0)"
    using take_batch_None [OF t] t by (simp add: attempt_flush_buffer_def)
  show ?thesis using a b c d by blast
qed

theorem conditional_drain_witness:
  "take_batch cfg0 False (world0\<lparr>buffer := [ev0]\<rparr>) = (Some [ev0], world0)
   \<and> buffer (attempt_flush_buffer cfg0 False (world0\<lparr>buffer := [ev0]\<rparr>)) = []
   \<and> last_flush (attempt_flush_buffer cfg0 False (world0\<lparr>buffer := [ev0]\<rparr>))
       = clock (attempt_flush_buffer cfg0 False (world0\<lparr>buffer := [ev0]\<rparr>))
   \<and> last_flush (attempt_flush_buffer cfg0 False
        (world0\<lparr>buffer := [ev0], net := [(OtherException, 0)]\<rparr>)) = 0
   \<and> take_batch cfg0 False (world0\<lparr>buffer := [ev0], last_flush := 4000\<rparr>)
       = (None, world0\<lparr>buffer := [ev0], last_flush := 4000\<rparr>)
   \<and> attempt_flush_buffer cfg0 False (world0\<lparr>buffer := [ev0], last_flush := 4000\<rparr>)
       = world0\<lparr>buffer := [ev0], last_flush := 4000\<rparr>"
proof -
  have 1: "take_batch cfg0 False (world0\<lparr>buffer := [ev0]\<rparr>) = (Some [ev0], world0)"
    "attempt_raises cfg0 False (world0\<lparr>buffer := [ev0]\<rparr>) = False"
    by (simp_all add: flush_eval)
  have 2: "take_batch cfg0 False (world0\<lparr>buffer := [ev0], last_flush := 4000\<rparr>)
       = (None, world0\<lparr>buffer := [ev0], last_flush := 4000\<rparr>)"
    by (simp add: take_batch_def world0_def cfg0_def)
  have 3: "take_batch cfg0 False (world0\<lparr>buffer := [ev0], net := [(OtherException, 0)]\<rparr>)
       = (Some [ev0], world0\<lparr>net := [(OtherException, 0)]\<rparr>)"
    "attempt_raises cfg0 False (world0\<lparr>buffer := [ev0], net := [(OtherException, 0)]\<rparr>) = True"
    "last_flush (world0\<lparr>buffer := [ev0], net := [(OtherException, 0)]\<rparr>) = 0"
    by (simp_all add: flush_eval)
  show ?thesis
    using conditional_drain [where w = "world0\<lparr>buffer := [ev0]\<rparr>" and c = cfg0
        and force = False and b = "[ev0]" and ?w0.0 = world0]
      conditional_drain [where w = "world0\<lparr>buffer := [ev0], net := [(OtherException, 0)]\<rparr>"
        and c = cfg0 and force = False and b = "[ev0]"
        and ?w0.0 = "world0\<lparr>net := [(OtherException, 0)]\<rparr>"]
      conditional_drain [where w = "world0\<lparr>buffer := [ev0], last_flush := 4000\<rparr>" and c = cfg0
        and force = False and ?w0.0 = "world0\<lparr>buffer := [ev0], last_flush := 4000\<rparr>"] 1 2 3
    by simp
qed

subsection \<open>No empty batch\<close>

text \<open>
  C10. With an empty buffer the flush attempt, forced or not, returns the world as it
  found it: no request, no spool write, no drain. A batch that is taken is never
  empty, and after the spool drain the attempt makes exactly one request, whose body
  is \<open>{"events": batch}\<close> with that batch.
\<close>

theorem no_empty_live_batch:
  "(buffer w = [] \<longrightarrow> attempt_flush_buffer c force w = w)
   \<and> (take_batch c force w = (Some b, w0) \<longrightarrow>
        b \<noteq> []
        \<and> rq_body (request_of c (JArr b)) = JObj [(''events'', JArr b)]
        \<and> new_posts (snd (flush_spool_once c w0)) (attempt_flush_buffer c force w)
            = [(request_of c (JArr b), fst (next_reply (snd (flush_spool_once c w0))))])"
proof -
  have a: "attempt_flush_buffer c force w = w" if "buffer w = []"
    using that by (simp add: attempt_flush_buffer_def take_batch_def)
  have b: "b \<noteq> []
        \<and> rq_body (request_of c (JArr b)) = JObj [(''events'', JArr b)]
        \<and> new_posts (snd (flush_spool_once c w0)) (attempt_flush_buffer c force w)
            = [(request_of c (JArr b), fst (next_reply (snd (flush_spool_once c w0))))]"
    if t: "take_batch c force w = (Some b, w0)"
    using take_batch_Some [OF t]
    by (auto simp: attempt_flush_buffer_taken [OF t] Let_def new_posts_def request_of_def
        payload_def)
  show ?thesis using a b by blast
qed

theorem no_empty_live_batch_witness:
  "buffer world0 = [] \<and> attempt_flush_buffer cfg0 True world0 = world0
   \<and> attempt_flush_buffer cfg0 False world0 = world0
   \<and> take_batch cfg0 True (world0\<lparr>buffer := [ev0]\<rparr>) = (Some [ev0], world0)
   \<and> new_posts (snd (flush_spool_once cfg0 world0))
        (attempt_flush_buffer cfg0 True (world0\<lparr>buffer := [ev0]\<rparr>))
       = [(request_of cfg0 (JArr [ev0]), RequestException)]"
proof -
  have 1: "buffer world0 = []" by (simp add: world0_def)
  have 2: "take_batch cfg0 True (world0\<lparr>buffer := [ev0]\<rparr>) = (Some [ev0], world0)"
    by (simp add: take_batch_def world0_def)
  have 3: "fst (next_reply (snd (flush_spool_once cfg0 world0))) = RequestException"
    by (simp add: eval_defs)
  show ?thesis
    using no_empty_live_batch [where w = world0 and c = cfg0 and force = True]
      no_empty_live_batch [where w = world0 and c = cfg0 and force = False]
      no_empty_live_batch [where w = "world0\<lparr>buffer := [ev0]\<rparr>" and c = cfg0
        and force = True and b = "[ev0]" and ?w0.0 = world0] 1 2 3
    by simp
qed

subsection \<open>The periodic drain\<close>

lemma quiet_pass:
  "buffer w = [] \<Longrightarrow> \<not> drain_due w \<Longrightarrow>
   flusher_pass c \<lparr>slept = n, arrivals = []\<rparr> w = w\<lparr>clock := clock w + n\<rparr>"
  by (simp add: flusher_pass_def attempt_flush_buffer_def attempt_raises_def take_batch_def
      Let_def)

lemma replicate_numeral_Cons: "replicate (numeral k) x = x # replicate (pred_numeral k) x"
  by (simp add: numeral_eq_Suc)

text \<open>
  C9. The flusher is to drain the spool about once every 30 seconds, never twice in a
  window and never skipping one. The source drains in every pass whose clock reads a
  whole second divisible by 30. On a quiet host with one spooled batch and the
  endpoint down, every drain makes one request. Two passes half a second apart at
  30.0 s and 30.5 s both drain. And when one sleep takes 1.3 s, passes at 29.8 s,
  31.1 s, 31.6 s, ... up to 59.6 s make no request at all: the second 30 was stepped
  over, and no drain happens between 29.8 s and 60.1 s.
\<close>

theorem periodic_drain_twice_then_skipped:
  "length (posts (fold (flusher_pass cfg0) [half_second, half_second] (quiet 30000))) = 2
   \<and> clock (fold (flusher_pass cfg0) [half_second, half_second] (quiet 30000)) = 31000
   \<and> posts (fold (flusher_pass cfg0) (stalled # replicate 58 half_second) (quiet 29800)) = []
   \<and> clock (fold (flusher_pass cfg0) (stalled # replicate 58 half_second) (quiet 29800)) = 60100"
proof -
  have 1: "length (posts (fold (flusher_pass cfg0) [half_second, half_second] (quiet 30000))) = 2
   \<and> clock (fold (flusher_pass cfg0) [half_second, half_second] (quiet 30000)) = 31000"
    by (simp add: flusher_pass_def attempt_flush_buffer_def attempt_raises_def take_batch_def
        drain_due_def half_second_def quiet_def eval_defs)
  have 2: "fold (flusher_pass cfg0) (stalled # replicate 58 half_second) (quiet 29800)
      = (quiet 29800)\<lparr>clock := 60100\<rparr>"
    by (simp add: replicate_numeral_Cons stalled_def half_second_def quiet_pass drain_due_def quiet_def world0_def)
  show ?thesis using 1 2 by (simp add: quiet_def world0_def)
qed

end
